theory Spec2Isabelle
  imports Main
begin

section \<open>The data of forking-daemon.c\<close>

text \<open>
  The program is one C file: a master process forks \<open>options.jobs\<close> children, records
  their pids in the global array \<open>children\<close>, installs handlers for SIGCHLD, SIGINT and
  SIGTERM and sleeps. The SIGCHLD handler (\<open>restart_children\<close>) polls every child with
  \<open>waitpid(..., WNOHANG)\<close> and forks a replacement for each one it reaps; the
  SIGINT/SIGTERM handler (\<open>terminate_children\<close>) resets the signals, kills the children,
  reaps them with \<open>wait()\<close> and exits.
\<close>

type_synonym pid_t = int

text \<open>\<open>options_t\<close>: the field \<open>logfile\<close> is the byte buffer \<open>char logfile[0xff]\<close>.\<close>

record options_t =
  jobs :: int
  daemonize :: bool
  logfile :: "nat \<Rightarrow> char"

text \<open>
  The values \<open>sa_handler\<close> takes in this program. Of \<open>struct sigaction\<close> only the
  handler is modelled (the flag \<open>SA_NOCLDSTOP\<close> of the SIGCHLD entry concerns stopped
  children, which the model does not have).
\<close>

datatype sighandler = SIG_DFL | Restart_children | Terminate_children

record sigpair_t =
  signal :: int
  action :: sighandler

text \<open>Signal numbers of \<open><signal.h>\<close> (Linux values; the program only needs them distinct).\<close>

definition SIGINT :: int where
  "SIGINT = 2"

definition SIGTERM :: int where
  "SIGTERM = 15"

definition SIGCHLD :: int where
  "SIGCHLD = 17"

section \<open>The operating system as the program sees it\<close>

text \<open>
  What a run prints and which system calls it makes, in order. A system call is recorded
  with its arguments and the value it returned: \<open>Fork r\<close> is \<open>fork()\<close>,
  \<open>Sigaction sig h r\<close> is \<open>sigaction(sig, &act, NULL)\<close> with handler \<open>h\<close>,
  \<open>Waitpid p r\<close> is the non-blocking \<open>waitpid(p, &status, WNOHANG)\<close>, \<open>Wait r\<close> the
  blocking \<open>wait(&status)\<close>, and \<open>Kill p sig\<close> is \<open>kill(p, sig)\<close>. \<open>Printf\<close> and \<open>Stderr\<close>
  carry the format and its arguments.
\<close>

datatype arg = Num int | Str string

datatype event =
    Fork int
  | Sigaction int sighandler int
  | Waitpid pid_t int
  | Wait int
  | Kill pid_t int
  | Printf string "arg list"
  | Stderr string "arg list"
  | Perror string
  | Sleep nat

text \<open>
  \<open>fork()\<close> either fails, or returns twice: the model follows one process, and the
  environment's answer says on which side of the fork it continues.
\<close>

datatype fork_answer = Fork_fails | In_parent | In_child

text \<open>
  The state of the process the model follows. The first four fields are the file
  variables of the program; the arrays \<open>sigpairs[0xff]\<close> and \<open>children[0xff]\<close> are maps
  from the index, and every access checks the index against the bound \<open>0xff\<close> where it is
  made. The other fields are the kernel's side:
  \<^item> \<open>disposition\<close>: the handler bound to each signal;
  \<^item> \<open>unreaped\<close>: the pids of the children that were forked and not yet waited for
    (running or zombie), \<open>last_pid\<close> the last pid handed out, \<open>pgid\<close> the process group;
  \<^item> the environment's choices: \<open>fork_plan k\<close> answers the \<open>k\<close>-th call of fork,
    \<open>sigaction_rejects k\<close> says whether the \<open>k\<close>-th call of sigaction fails,
    \<open>has_exited k q\<close> whether child \<open>q\<close> has terminated when the \<open>k\<close>-th call of the
    wait family looks (for the blocking \<open>wait\<close>: whether it terminates while that call
    waits), and \<open>draws\<close> are the values \<open>arc4random()\<close> returns;
  \<^item> \<open>trace\<close>: the events so far.
\<close>

record world =
  options :: options_t
  sigcount :: int
  sigpairs :: "int \<Rightarrow> sigpair_t"
  children :: "int \<Rightarrow> pid_t"
  disposition :: "int \<Rightarrow> sighandler"
  unreaped :: "nat list"
  last_pid :: nat
  pgid :: nat
  fork_plan :: "nat \<Rightarrow> fork_answer"
  n_fork :: nat
  sigaction_rejects :: "nat \<Rightarrow> bool"
  n_sigaction :: nat
  has_exited :: "nat \<Rightarrow> nat \<Rightarrow> bool"
  n_wait :: nat
  draws :: "nat list"
  trace :: "event list"

text \<open>
  How a C function ends: it returns a value, the process exits with a status, the
  behaviour is undefined (an array indexed outside its bounds), or the process never
  comes back (it sleeps or blocks for ever).
\<close>

datatype 'a result = Returns 'a | Exits int | Faults | Suspends

definition emit :: "event \<Rightarrow> world \<Rightarrow> world" where
  "emit e w = w\<lparr>trace := trace w @ [e]\<rparr>"

text \<open>
  \<open>fork()\<close>: \<open>-1\<close> on failure; in the parent the new child's pid, which is fresh and
  positive, and the child joins the process table; in the child \<open>0\<close>, and the new process
  has no children of its own.
\<close>

definition sys_fork :: "world \<Rightarrow> int \<times> world" where
  "sys_fork w =
     (let w0 = w\<lparr>n_fork := Suc (n_fork w)\<rparr> in
      case fork_plan w (n_fork w) of
        Fork_fails \<Rightarrow> (- 1, emit (Fork (- 1)) w0)
      | In_child \<Rightarrow> (0, emit (Fork 0) (w0\<lparr>unreaped := []\<rparr>))
      | In_parent \<Rightarrow>
          (let p = Suc (last_pid w) in
           (int p, emit (Fork (int p)) (w0\<lparr>last_pid := p, unreaped := unreaped w @ [p]\<rparr>))))"

text \<open>\<open>sigaction(sig, act, NULL)\<close>: \<open>-1\<close> and no change when rejected, else the binding is switched.\<close>

definition sys_sigaction :: "int \<Rightarrow> sighandler \<Rightarrow> world \<Rightarrow> int \<times> world" where
  "sys_sigaction sig h w =
     (let w0 = w\<lparr>n_sigaction := Suc (n_sigaction w)\<rparr> in
      if sigaction_rejects w (n_sigaction w)
      then (- 1, emit (Sigaction sig h (- 1)) w0)
      else (0, emit (Sigaction sig h 0) (w0\<lparr>disposition := (disposition w)(sig := h)\<rparr>)))"

text \<open>
  Which children a \<open>waitpid\<close> argument selects: a positive pid that child, \<open>-1\<close> any child,
  \<open>0\<close> the caller's process group and \<open>p < -1\<close> the group \<open>-p\<close> (the children never
  leave the caller's group).
\<close>

definition selects :: "world \<Rightarrow> pid_t \<Rightarrow> nat \<Rightarrow> bool" where
  "selects w p q =
     (if 0 < p then q = nat p
      else if p = 0 \<or> p = - 1 then True
      else nat (- p) = pgid w)"

text \<open>
  \<open>waitpid(p, &status, WNOHANG)\<close>: \<open>-1\<close> (ECHILD) when \<open>p\<close> selects no unreaped child,
  \<open>0\<close> when none of the selected children has exited, else the pid of one that has, which
  leaves the process table.
\<close>

definition sys_waitpid :: "pid_t \<Rightarrow> world \<Rightarrow> int \<times> world" where
  "sys_waitpid p w =
     (let k = n_wait w; w0 = w\<lparr>n_wait := Suc k\<rparr>;
          cs = filter (selects w p) (unreaped w) in
      if cs = [] then (- 1, emit (Waitpid p (- 1)) w0)
      else case find (has_exited w k) cs of
             None \<Rightarrow> (0, emit (Waitpid p 0) w0)
           | Some q \<Rightarrow>
               (int q, emit (Waitpid p (int q)) (w0\<lparr>unreaped := remove1 q (unreaped w)\<rparr>)))"

text \<open>
  \<open>wait(&status)\<close>: \<open>-1\<close> when there is no child left; else it blocks until a child has
  exited and returns its pid. When no child ever exits the caller stays blocked.
\<close>

definition sys_wait :: "world \<Rightarrow> int result \<times> world" where
  "sys_wait w =
     (let k = n_wait w; w0 = w\<lparr>n_wait := Suc k\<rparr> in
      if unreaped w = [] then (Returns (- 1), emit (Wait (- 1)) w0)
      else case find (has_exited w k) (unreaped w) of
             None \<Rightarrow> (Suspends, w0)
           | Some q \<Rightarrow>
               (Returns (int q), emit (Wait (int q)) (w0\<lparr>unreaped := remove1 q (unreaped w)\<rparr>)))"

text \<open>\<open>kill(p, sig)\<close>: the program ignores what it returns; whether and when the target
  exits is the environment's \<open>has_exited\<close>.\<close>

definition sys_kill :: "pid_t \<Rightarrow> int \<Rightarrow> world \<Rightarrow> world" where
  "sys_kill p sig w = emit (Kill p sig) w"

section \<open>The functions of the program\<close>

subsection \<open>trap_signals\<close>

text \<open>
  The loop \<open>for (i = 0; i < sigcount; ++i)\<close> from index \<open>i\<close> on: the first
  \<open>sigaction\<close> that returns a negative value ends it with \<open>false\<close>.
\<close>

function trap_signals_from :: "bool \<Rightarrow> int \<Rightarrow> world \<Rightarrow> bool result \<times> world" where
  "trap_signals_from on i w =
     (if i < sigcount w then
        (if 0 \<le> i \<and> i < 0xff then
           (case sys_sigaction (signal (sigpairs w i))
                   (if on then action (sigpairs w i) else SIG_DFL) w of
              (r, w') \<Rightarrow>
                if r < 0 then (Returns False, w') else trap_signals_from on (i + 1) w')
         else (Faults, w))
      else (Returns True, w))"
  by pat_completeness auto
termination
  by (relation "measure (\<lambda>(on, i, w). nat (sigcount w - i))")
     (auto simp: sys_sigaction_def emit_def Let_def split: if_splits)

definition trap_signals :: "bool \<Rightarrow> world \<Rightarrow> bool result \<times> world" where
  "trap_signals on w = trap_signals_from on 0 w"

subsection \<open>child\<close>

text \<open>
  The child's loop \<open>while (1) { if (arc4random() % 20) sleep(1); else break; }\<close> over the
  values drawn; a child that outlives the draws given is still asleep.
\<close>

fun worker_loop :: "nat list \<Rightarrow> world \<Rightarrow> bool result \<times> world" where
  "worker_loop [] w = (Suspends, w)"
| "worker_loop (r # rs) w =
     (if r mod 20 \<noteq> 0 then worker_loop rs (emit (Sleep 1) (w\<lparr>draws := rs\<rparr>))
      else (Exits 0, w\<lparr>draws := rs\<rparr>))"

definition child :: "int \<Rightarrow> world \<Rightarrow> bool result \<times> world" where
  "child ident w =
     (case sys_fork w of
        (pid, w1) \<Rightarrow>
          if pid < 0 then (Returns False, w1)
          else if pid > 0 then
            (let w2 = emit (Printf ''Spawning child %d (pid %d)\<newline>'' [Num ident, Num pid]) w1 in
             if 0 \<le> ident \<and> ident < 0xff
             then (Returns True, w2\<lparr>children := (children w2)(ident := pid)\<rparr>)
             else (Faults, w2))
          else
            (case trap_signals False w1 of
               (Returns ok, w2) \<Rightarrow>
                 if \<not> ok
                 then (Exits 1, emit (Stderr ''Child %d: trap_signals() failed!\<newline>'' [Num ident]) w2)
                 else worker_loop (draws w2) w2
             | (Exits n, w2) \<Rightarrow> (Exits n, w2)
             | (Faults, w2) \<Rightarrow> (Faults, w2)
             | (Suspends, w2) \<Rightarrow> (Suspends, w2)))"

subsection \<open>restart_children\<close>

text \<open>The body of the loop for slot \<open>i\<close>: one non-blocking poll, then one of three branches.\<close>

definition restart_slot :: "int \<Rightarrow> world \<Rightarrow> unit result \<times> world" where
  "restart_slot i w =
     (if 0 \<le> i \<and> i < 0xff then
        (case sys_waitpid (children w i) w of
           (pid, w1) \<Rightarrow>
             if pid < 0 then (Returns (), emit (Perror ''waitpid()'') w1)
             else if pid = 0 then (Returns (), w1)
             else
               (case child i (emit (Printf ''Master: reaped dead child %d (pid %d)\<newline>''
                                      [Num i, Num pid]) w1) of
                  (Returns _, w2) \<Rightarrow> (Returns (), w2)
                | (Exits n, w2) \<Rightarrow> (Exits n, w2)
                | (Faults, w2) \<Rightarrow> (Faults, w2)
                | (Suspends, w2) \<Rightarrow> (Suspends, w2)))
      else (Faults, w))"

function restart_children_from :: "int \<Rightarrow> world \<Rightarrow> unit result \<times> world" where
  "restart_children_from i w =
     (if i < jobs (options w) then
        (case restart_slot i w of
           (Returns _, w1) \<Rightarrow> restart_children_from (i + 1) w1
         | (Exits n, w1) \<Rightarrow> (Exits n, w1)
         | (Faults, w1) \<Rightarrow> (Faults, w1)
         | (Suspends, w1) \<Rightarrow> (Suspends, w1))
      else (Returns (), w))"
  by pat_completeness auto

definition restart_children :: "world \<Rightarrow> unit result \<times> world" where
  "restart_children w = restart_children_from 0 w"

subsection \<open>terminate_children\<close>

text \<open>The loop \<open>for (i = 0; i < options.jobs; ++i) kill(children[i], SIGTERM)\<close>.\<close>

function kill_from :: "int \<Rightarrow> world \<Rightarrow> unit result \<times> world" where
  "kill_from i w =
     (if i < jobs (options w) then
        (if 0 \<le> i \<and> i < 0xff then kill_from (i + 1) (sys_kill (children w i) SIGTERM w)
         else (Faults, w))
      else (Returns (), w))"
  by pat_completeness auto
termination
  by (relation "measure (\<lambda>(i, w). nat (jobs (options w) - i))")
     (auto simp: sys_kill_def emit_def)

text \<open>The loop \<open>while ((pid = wait(&status)) != -1) printf(".")\<close>.\<close>

function reap_all :: "world \<Rightarrow> unit result \<times> world" where
  "reap_all w =
     (case sys_wait w of
        (Returns pid, w1) \<Rightarrow>
          if pid \<noteq> - 1 then reap_all (emit (Printf ''.'' []) w1) else (Returns (), w1)
      | (Exits n, w1) \<Rightarrow> (Exits n, w1)
      | (Faults, w1) \<Rightarrow> (Faults, w1)
      | (Suspends, w1) \<Rightarrow> (Suspends, w1))"
  by pat_completeness auto
termination
  by (relation "measure (\<lambda>w. length (unreaped w))")
     (auto simp: sys_wait_def emit_def Let_def length_remove1 find_Some_iff
           split: if_splits option.splits)

text \<open>The value \<open>trap_signals(false)\<close> returns is not looked at.\<close>

definition terminate_children :: "world \<Rightarrow> unit result \<times> world" where
  "terminate_children w =
     (case trap_signals False
             (emit (Printf ''Termination signal received! Killing children'' []) w) of
        (Returns _, w1) \<Rightarrow>
          (case kill_from 0 w1 of
             (Returns _, w2) \<Rightarrow>
               (case reap_all w2 of
                  (Returns _, w3) \<Rightarrow>
                    (Exits 0,
                     emit (Printf ''\<newline>All children reaped, shutting down.\<newline>'' []) w3)
                | (Exits n, w3) \<Rightarrow> (Exits n, w3)
                | (Faults, w3) \<Rightarrow> (Faults, w3)
                | (Suspends, w3) \<Rightarrow> (Suspends, w3))
           | (Exits n, w2) \<Rightarrow> (Exits n, w2)
           | (Faults, w2) \<Rightarrow> (Faults, w2)
           | (Suspends, w2) \<Rightarrow> (Suspends, w2))
      | (Exits n, w1) \<Rightarrow> (Exits n, w1)
      | (Faults, w1) \<Rightarrow> (Faults, w1)
      | (Suspends, w1) \<Rightarrow> (Suspends, w1))"

subsection \<open>register_signals and master\<close>

definition register_signals :: "world \<Rightarrow> world" where
  "register_signals w =
     (let sp0 = (sigpairs w)(0 := \<lparr>signal = SIGCHLD, action = Restart_children\<rparr>);
          sp1 = sp0(1 := \<lparr>signal = SIGINT, action = Terminate_children\<rparr>);
          sp2 = sp1(2 := \<lparr>signal = SIGTERM, action = Terminate_children\<rparr>)
      in w\<lparr>sigpairs := sp2, sigcount := 3\<rparr>)"

text \<open>
  \<open>master\<close> after its spawn loop: the signals are registered and trapped, and the
  process sleeps for ever (\<open>while (1) sleep(1)\<close>).
\<close>

definition master_rest :: "world \<Rightarrow> int result \<times> world" where
  "master_rest w =
     (case trap_signals True (register_signals w) of
        (Returns ok, w1) \<Rightarrow>
          if \<not> ok then (Returns 1, emit (Stderr ''trap_signals() failed!\<newline>'' []) w1)
          else (Suspends, w1)
      | (Exits n, w1) \<Rightarrow> (Exits n, w1)
      | (Faults, w1) \<Rightarrow> (Faults, w1)
      | (Suspends, w1) \<Rightarrow> (Suspends, w1))"

text \<open>\<open>master\<close> from the iteration \<open>i\<close> of its spawn loop on.\<close>

function master_from :: "int \<Rightarrow> world \<Rightarrow> int result \<times> world" where
  "master_from i w =
     (if i < jobs (options w) then
        (case child i w of
           (Returns ok, w1) \<Rightarrow>
             if \<not> ok then (Returns 1, emit (Stderr ''child() failed!\<newline>'' []) w1)
             else master_from (i + 1) w1
         | (Exits n, w1) \<Rightarrow> (Exits n, w1)
         | (Faults, w1) \<Rightarrow> (Faults, w1)
         | (Suspends, w1) \<Rightarrow> (Suspends, w1))
      else master_rest w)"
  by pat_completeness auto

definition master :: "world \<Rightarrow> int result \<times> world" where
  "master w = master_from 0 w"

subsection \<open>optparse\<close>

definition NUL :: char where
  "NUL = CHR 0x00"

text \<open>
  \<open>strcpy(dst, src)\<close> on the buffer \<open>dst\<close>: the characters of \<open>src\<close> and the terminating
  NUL. \<open>strncpy(dst, src, n)\<close>: exactly \<open>n\<close> bytes are written, the characters of \<open>src\<close>
  and NUL padding, so a \<open>src\<close> of \<open>n\<close> or more characters leaves no terminator.
  \<open>c_str n buf\<close> reads the string a buffer of \<open>n\<close> bytes holds.
\<close>

definition strcpy :: "(nat \<Rightarrow> char) \<Rightarrow> string \<Rightarrow> (nat \<Rightarrow> char)" where
  "strcpy dst src =
     (\<lambda>k. if k < length src then src ! k else if k = length src then NUL else dst k)"

definition strncpy :: "(nat \<Rightarrow> char) \<Rightarrow> string \<Rightarrow> nat \<Rightarrow> (nat \<Rightarrow> char)" where
  "strncpy dst src n =
     (\<lambda>k. if k < n then (if k < length src then src ! k else NUL) else dst k)"

definition c_str :: "nat \<Rightarrow> (nat \<Rightarrow> char) \<Rightarrow> string option" where
  "c_str n buf =
     (let bs = map buf [0..<n] in
      if NUL \<in> set bs then Some (takeWhile (\<lambda>c. c \<noteq> NUL) bs) else None)"

text \<open>
  \<open>atoi\<close>: white space, an optional sign, decimal digits. A value that does not fit
  an \<open>int\<close> is undefined behaviour (\<open>None\<close>).
\<close>

definition isspace :: "char \<Rightarrow> bool" where
  "isspace c = (c \<in> set [CHR '' '', CHR 0x09, CHR 0x0A, CHR 0x0B, CHR 0x0C, CHR 0x0D])"

definition isdigit :: "char \<Rightarrow> bool" where
  "isdigit c = (48 \<le> (of_char c :: nat) \<and> (of_char c :: nat) \<le> 57)"

fun digits_value :: "int \<Rightarrow> string \<Rightarrow> int" where
  "digits_value acc [] = acc"
| "digits_value acc (c # cs) =
     (if isdigit c then digits_value (10 * acc + (of_char c - 48)) cs else acc)"

definition atoi :: "string \<Rightarrow> int option" where
  "atoi s =
     (let t = dropWhile isspace s;
          v = (case t of
                 [] \<Rightarrow> 0
               | c # cs \<Rightarrow>
                   if c = CHR ''-'' then - digits_value 0 cs
                   else if c = CHR ''+'' then digits_value 0 cs
                   else digits_value 0 t)
      in if - 2147483648 \<le> v \<and> v \<le> 2147483647 then Some v else None)"

text \<open>
  The usage text, printed for \<open>-h\<close> and for every option character \<open>getopt\<close> does
  not accept.
\<close>

definition usage :: "string \<Rightarrow> world \<Rightarrow> world" where
  "usage argv0 w =
     emit (Printf ''    -h\<newline>'' [])
    (emit (Printf ''    -d          daemonize\<newline>'' [])
    (emit (Printf ''    -f FILE     log to file when daemonized\<newline>'' [])
    (emit (Printf ''    -j JOBS     number of children to spawn\<newline>'' [])
    (emit (Printf ''Options:\<newline>'' [])
    (emit (Printf ''Usage: %s [options]\<newline>\<newline>'' [Str argv0])
    (emit (Printf ''An example forking daemon utilizing SIGCHLD.\<newline>\<newline>'' []) w))))))"

text \<open>
  The loop \<open>while ((opt = getopt(argc, argv, "hdf:j:")) != -1)\<close>. \<open>getopt\<close> is the C
  library's: the loop is given the pairs (option character, \<open>optarg\<close>) its calls return
  before \<open>-1\<close>.
\<close>

fun optparse_loop :: "string \<Rightarrow> (char \<times> string) list \<Rightarrow> world \<Rightarrow> unit result \<times> world" where
  "optparse_loop argv0 [] w = (Returns (), w)"
| "optparse_loop argv0 ((opt, optarg) # rest) w =
     (if opt = CHR ''d'' then
        optparse_loop argv0 rest (w\<lparr>options := (options w)\<lparr>daemonize := True\<rparr>\<rparr>)
      else if opt = CHR ''f'' then
        optparse_loop argv0 rest
          (w\<lparr>options := (options w)\<lparr>logfile := strncpy (logfile (options w)) optarg 0xff\<rparr>\<rparr>)
      else if opt = CHR ''j'' then
        (case atoi optarg of
           None \<Rightarrow> (Faults, w)
         | Some n \<Rightarrow> optparse_loop argv0 rest (w\<lparr>options := (options w)\<lparr>jobs := n\<rparr>\<rparr>))
      else (Exits (if opt = CHR ''h'' then 0 else 1), usage argv0 w))"

definition optparse :: "string \<Rightarrow> (char \<times> string) list \<Rightarrow> world \<Rightarrow> unit result \<times> world" where
  "optparse argv0 gs w =
     optparse_loop argv0 gs
       (w\<lparr>options := (options w)\<lparr>jobs := 2, daemonize := False,
                                  logfile := strcpy (logfile (options w)) ''/dev/null''\<rparr>\<rparr>)"

subsection \<open>The process image at the start of main\<close>

text \<open>
  File variables are zero-initialised, every signal has its default disposition and the
  process has no children; the four parameters are the environment's choices.
\<close>

definition boot ::
  "(nat \<Rightarrow> fork_answer) \<Rightarrow> (nat \<Rightarrow> bool) \<Rightarrow> (nat \<Rightarrow> nat \<Rightarrow> bool) \<Rightarrow> nat list \<Rightarrow> world" where
  "boot fp sr he ds =
     \<lparr>options = \<lparr>jobs = 0, daemonize = False, logfile = (\<lambda>_. NUL)\<rparr>,
      sigcount = 0,
      sigpairs = (\<lambda>_. \<lparr>signal = 0, action = SIG_DFL\<rparr>),
      children = (\<lambda>_. 0),
      disposition = (\<lambda>_. SIG_DFL),
      unreaped = [],
      last_pid = 100,
      pgid = 100,
      fork_plan = fp,
      n_fork = 0,
      sigaction_rejects = sr,
      n_sigaction = 0,
      has_exited = he,
      n_wait = 0,
      draws = ds,
      trace = []\<rparr>"

section \<open>Vocabulary of the statements\<close>

text \<open>
  The bindings \<open>trap_signals(on)\<close> asks for, from the pair \<open>i\<close> on: each registered
  signal with its handler (or the default one when \<open>on\<close> is false); \<open>switch_all\<close> switches
  a list of bindings in order; \<open>accepted_calls rej k m\<close> counts how many of the \<open>m\<close> calls
  of sigaction from call number \<open>k\<close> on the kernel accepts before the first one it rejects.
\<close>

definition bindings :: "bool \<Rightarrow> world \<Rightarrow> int \<Rightarrow> (int \<times> sighandler) list" where
  "bindings on w i =
     map (\<lambda>j. (signal (sigpairs w j), if on then action (sigpairs w j) else SIG_DFL))
       [i..sigcount w - 1]"

definition switch_all :: "(int \<times> sighandler) list \<Rightarrow> (int \<Rightarrow> sighandler) \<Rightarrow> (int \<Rightarrow> sighandler)" where
  "switch_all bs d = foldl (\<lambda>d (s, h). d(s := h)) d bs"

fun accepted_calls :: "(nat \<Rightarrow> bool) \<Rightarrow> nat \<Rightarrow> nat \<Rightarrow> nat" where
  "accepted_calls rej k 0 = 0"
| "accepted_calls rej k (Suc m) = (if rej k then 0 else Suc (accepted_calls rej (Suc k) m))"


text \<open>
  The events of \<open>trap_signals\<close> over the bindings \<open>bs\<close> when the first \<open>a\<close> calls are
  accepted: one accepted call for each of them, and the rejected call if there is one.
\<close>

definition sigaction_events :: "(int \<times> sighandler) list \<Rightarrow> nat \<Rightarrow> event list" where
  "sigaction_events bs a =
     map (\<lambda>(s, h). Sigaction s h 0) (take a bs) @
     map (\<lambda>(s, h). Sigaction s h (- 1)) (take 1 (drop a bs))"


text \<open>
  The spawn loop of \<open>master\<close>: \<open>spawn_upto k w\<close> is the state after \<open>child\<close> ran for the
  slots \<open>0..k-1\<close>, and \<open>spawning p0 k\<close> are the events of \<open>k\<close> successful spawns when the
  last pid handed out before was \<open>p0\<close>.
\<close>

primrec spawn_upto :: "nat \<Rightarrow> world \<Rightarrow> world" where
  "spawn_upto 0 w = w"
| "spawn_upto (Suc k) w = snd (child (int k) (spawn_upto k w))"

definition spawning :: "nat \<Rightarrow> nat \<Rightarrow> event list" where
  "spawning p0 k =
     concat (map (\<lambda>j. [Fork (int (Suc (p0 + j))),
                        Printf ''Spawning child %d (pid %d)\<newline>''
                          [Num (int j), Num (int (Suc (p0 + j)))]]) [0..<k])"


text \<open>
  For the start-up: how many of the \<open>options.jobs\<close> spawns succeed before the first fork
  that does not, how many of the three installations the kernel accepts before the first
  it rejects, and the three bindings \<open>register_signals\<close> sets up.
\<close>

definition spawned_ok :: "world \<Rightarrow> nat" where
  "spawned_ok w =
     accepted_calls (\<lambda>k. fork_plan w k \<noteq> In_parent) (n_fork w) (nat (jobs (options w)))"

definition installed_ok :: "world \<Rightarrow> nat" where
  "installed_ok w = accepted_calls (sigaction_rejects w) (n_sigaction w) 3"

definition handlers :: "(int \<times> sighandler) list" where
  "handlers = [(SIGCHLD, Restart_children), (SIGINT, Terminate_children),
               (SIGTERM, Terminate_children)]"


text \<open>
  The state in which \<open>main\<close> calls \<open>master\<close> when it does not daemonize: the process image
  after \<open>optparse\<close> has read the options \<open>gs\<close>.
\<close>

definition started ::
  "(char \<times> string) list \<Rightarrow> (nat \<Rightarrow> fork_answer) \<Rightarrow> (nat \<Rightarrow> bool) \<Rightarrow> (nat \<Rightarrow> nat \<Rightarrow> bool) \<Rightarrow> world" where
  "started gs fp sr he = snd (optparse ''forking-daemon'' gs (boot fp sr he []))"


text \<open>
  For a pass of \<open>restart_children\<close>: \<open>pass_upto k w\<close> is the state after the body of the
  loop ran for the slots \<open>0..k-1\<close>. \<open>slot_events i p r q\<close> are the events of the body for
  slot \<open>i\<close> holding pid \<open>p\<close>, when \<open>waitpid\<close> returns \<open>r\<close> and, for a positive \<open>r\<close>, the
  fork of the respawn returns \<open>q\<close>. \<open>added w w'\<close> are the events a run from \<open>w\<close> to \<open>w'\<close>
  appended, and \<open>polls\<close> picks the calls of \<open>waitpid\<close> out of them: the pid asked for and
  the value returned.
\<close>

primrec pass_upto :: "nat \<Rightarrow> world \<Rightarrow> world" where
  "pass_upto 0 w = w"
| "pass_upto (Suc k) w = snd (restart_slot (int k) (pass_upto k w))"

definition slot_events :: "int \<Rightarrow> pid_t \<Rightarrow> int \<Rightarrow> int \<Rightarrow> event list" where
  "slot_events i p r q =
     Waitpid p r #
     (if r < 0 then [Perror ''waitpid()'']
      else if r = 0 then []
      else [Printf ''Master: reaped dead child %d (pid %d)\<newline>'' [Num i, Num r], Fork q] @
           (if 0 < q then [Printf ''Spawning child %d (pid %d)\<newline>'' [Num i, Num q]] else []))"

definition added :: "world \<Rightarrow> world \<Rightarrow> event list" where
  "added w w' = drop (length (trace w)) (trace w')"

fun polls :: "event list \<Rightarrow> (pid_t \<times> int) list" where
  "polls [] = []"
| "polls (Waitpid p r # es) = (p, r) # polls es"
| "polls (e # es) = polls es"


text \<open>The supervisor asleep: the state \<open>master\<close> leaves when it is started with the options \<open>gs\<close>.\<close>

definition asleep ::
  "(char \<times> string) list \<Rightarrow> (nat \<Rightarrow> fork_answer) \<Rightarrow> (nat \<Rightarrow> bool) \<Rightarrow> (nat \<Rightarrow> nat \<Rightarrow> bool) \<Rightarrow> world" where
  "asleep gs fp sr he = snd (master (started gs fp sr he))"


text \<open>
  Kinds of events: a call of fork; a call of sigaction that asks for the default
  disposition; a call of kill that sends SIGTERM; and what the reaping loop of
  \<open>terminate_children\<close> adds for a child it reaps (a \<open>wait\<close> that returns a pid, and the
  dot it prints).
\<close>

fun is_fork :: "event \<Rightarrow> bool" where
  "is_fork (Fork q) = True"
| "is_fork e = False"

fun is_restore :: "event \<Rightarrow> bool" where
  "is_restore (Sigaction s h r) = (h = SIG_DFL)"
| "is_restore e = False"

fun is_kill :: "event \<Rightarrow> bool" where
  "is_kill (Kill p s) = (s = SIGTERM)"
| "is_kill e = False"

fun is_reap :: "event \<Rightarrow> bool" where
  "is_reap (Wait r) = (r \<noteq> - 1)"
| "is_reap (Printf f a) = (f = ''.'' \<and> a = [])"
| "is_reap e = False"


text \<open>
  The table of children is in order when the slots \<open>0..jobs-1\<close> hold distinct positive
  pids that were handed out earlier.
\<close>

definition table_ok :: "world \<Rightarrow> bool" where
  "table_ok w =
     ((\<forall>j. 0 \<le> j \<and> j < jobs (options w) \<longrightarrow>
            0 < children w j \<and> children w j \<le> int (last_pid w)) \<and>
      inj_on (children w) {0..<jobs (options w)})"

section \<open>What the functions leave unchanged\<close>

lemma emit_simps [simp]:
  "options (emit e w) = options w" "sigcount (emit e w) = sigcount w"
  "sigpairs (emit e w) = sigpairs w" "children (emit e w) = children w"
  "disposition (emit e w) = disposition w" "unreaped (emit e w) = unreaped w"
  "last_pid (emit e w) = last_pid w" "pgid (emit e w) = pgid w"
  "fork_plan (emit e w) = fork_plan w" "n_fork (emit e w) = n_fork w"
  "sigaction_rejects (emit e w) = sigaction_rejects w" "n_sigaction (emit e w) = n_sigaction w"
  "has_exited (emit e w) = has_exited w" "n_wait (emit e w) = n_wait w"
  "draws (emit e w) = draws w" "trace (emit e w) = trace w @ [e]"
  by (simp_all add: emit_def)

lemma trap_signals_from_frame:
  "trap_signals_from on i w = (r, w') \<Longrightarrow>
     options w' = options w \<and> sigcount w' = sigcount w \<and> sigpairs w' = sigpairs w \<and>
     children w' = children w \<and> unreaped w' = unreaped w \<and> last_pid w' = last_pid w \<and>
     pgid w' = pgid w \<and> fork_plan w' = fork_plan w \<and> n_fork w' = n_fork w \<and>
     sigaction_rejects w' = sigaction_rejects w \<and> has_exited w' = has_exited w \<and>
     n_wait w' = n_wait w \<and> draws w' = draws w"
proof (induction on i w arbitrary: r w' rule: trap_signals_from.induct)
  case (1 on i w)
  obtain x y where xy: "sys_sigaction (signal (sigpairs w i)) (if on then action (sigpairs w i) else SIG_DFL) w = (x, y)"
    by (cases "sys_sigaction (signal (sigpairs w i)) (if on then action (sigpairs w i) else SIG_DFL) w")
  have y: "options y = options w \<and> sigcount y = sigcount w \<and> sigpairs y = sigpairs w \<and>
     children y = children w \<and> unreaped y = unreaped w \<and> last_pid y = last_pid w \<and>
     pgid y = pgid w \<and> fork_plan y = fork_plan w \<and> n_fork y = n_fork w \<and>
     sigaction_rejects y = sigaction_rejects w \<and> has_exited y = has_exited w \<and>
     n_wait y = n_wait w \<and> draws y = draws w"
    using xy by (auto simp: sys_sigaction_def Let_def split: if_splits)
  show ?case
  proof (cases "i < sigcount w \<and> 0 \<le> i \<and> i < 0xff \<and> \<not> x < 0")
    case True
    then have step: "trap_signals_from on (i + 1) y = (r, w')"
      using "1.prems" xy by (subst (asm) trap_signals_from.simps) simp
    from "1.IH"[OF _ _ xy[symmetric] _ step] True y
    show ?thesis by simp
  next
    case False
    then show ?thesis using "1.prems" xy y
      by (subst (asm) trap_signals_from.simps) (auto split: if_splits)
  qed
qed


lemma worker_loop_frame:
  "worker_loop ds w = (r, w') \<Longrightarrow>
     options w' = options w \<and> sigcount w' = sigcount w \<and> sigpairs w' = sigpairs w \<and>
     children w' = children w \<and> fork_plan w' = fork_plan w \<and> has_exited w' = has_exited w \<and>
     sigaction_rejects w' = sigaction_rejects w \<and> pgid w' = pgid w \<and> r \<noteq> Returns b"
  by (induction ds w arbitrary: r w' rule: worker_loop.induct) (auto split: if_splits)

lemma sys_fork_frame:
  "sys_fork w = (p, w') \<Longrightarrow>
     options w' = options w \<and> sigcount w' = sigcount w \<and> sigpairs w' = sigpairs w \<and>
     children w' = children w \<and> fork_plan w' = fork_plan w \<and> has_exited w' = has_exited w \<and>
     sigaction_rejects w' = sigaction_rejects w \<and> pgid w' = pgid w \<and>
     disposition w' = disposition w \<and> n_wait w' = n_wait w \<and> n_sigaction w' = n_sigaction w \<and>
     n_fork w' = Suc (n_fork w) \<and> draws w' = draws w"
  by (auto simp: sys_fork_def Let_def split: fork_answer.splits)

lemma child_frame:
  assumes "child i w = (r, w')"
  shows "options w' = options w \<and> sigcount w' = sigcount w \<and> sigpairs w' = sigpairs w \<and>
     fork_plan w' = fork_plan w \<and> has_exited w' = has_exited w \<and>
     sigaction_rejects w' = sigaction_rejects w \<and> pgid w' = pgid w"
proof -
  obtain p w1 where f: "sys_fork w = (p, w1)" by (cases "sys_fork w")
  note f1 = sys_fork_frame[OF f]
  show ?thesis
  proof (cases "p = 0")
    case False
    then show ?thesis using assms f f1
      by (auto simp: child_def Let_def split: if_splits)
  next
    case True
    obtain r2 w2 where t: "trap_signals_from False 0 w1 = (r2, w2)"
      by (cases "trap_signals_from False 0 w1")
    note t1 = trap_signals_from_frame[OF t]
    show ?thesis
    proof (cases r2)
      case (Returns ok)
      show ?thesis
      proof (cases ok)
        case True
        with assms f \<open>p = 0\<close> t Returns have "worker_loop (draws w2) w2 = (r, w')"
          by (simp add: child_def trap_signals_def)
        from worker_loop_frame[OF this] t1 f1 show ?thesis by simp
      next
        case False
        with assms f \<open>p = 0\<close> t Returns t1 f1 show ?thesis
          by (auto simp: child_def trap_signals_def)
      qed
    next
      case (Exits n)
      with assms f True t t1 f1 show ?thesis by (auto simp: child_def trap_signals_def)
    next
      case Faults
      with assms f True t t1 f1 show ?thesis by (auto simp: child_def trap_signals_def)
    next
      case Suspends
      with assms f True t t1 f1 show ?thesis by (auto simp: child_def trap_signals_def)
    qed
  qed
qed

lemma sys_waitpid_frame:
  "sys_waitpid p w = (r, w') \<Longrightarrow>
     options w' = options w \<and> sigcount w' = sigcount w \<and> sigpairs w' = sigpairs w \<and>
     children w' = children w \<and> fork_plan w' = fork_plan w \<and> has_exited w' = has_exited w \<and>
     sigaction_rejects w' = sigaction_rejects w \<and> pgid w' = pgid w \<and>
     disposition w' = disposition w \<and> n_wait w' = Suc (n_wait w) \<and> n_sigaction w' = n_sigaction w \<and>
     n_fork w' = n_fork w \<and> last_pid w' = last_pid w \<and> draws w' = draws w \<and>
     trace w' = trace w @ [Waitpid p r]"
  by (auto simp: sys_waitpid_def Let_def split: if_splits option.splits)

lemma restart_slot_frame:
  assumes "restart_slot i w = (r, w')"
  shows "options w' = options w \<and> sigcount w' = sigcount w \<and> sigpairs w' = sigpairs w \<and>
     fork_plan w' = fork_plan w \<and> has_exited w' = has_exited w \<and>
     sigaction_rejects w' = sigaction_rejects w \<and> pgid w' = pgid w"
proof (cases "0 \<le> i \<and> i < 0xff")
  case False
  then show ?thesis using assms by (auto simp: restart_slot_def)
next
  case True
  obtain p w1 where p: "sys_waitpid (children w i) w = (p, w1)"
    by (cases "sys_waitpid (children w i) w")
  note p1 = sys_waitpid_frame[OF p]
  show ?thesis
  proof (cases "0 < p")
    case False
    then show ?thesis using assms True p p1 by (auto simp: restart_slot_def split: if_splits)
  next
    case pos: True
    obtain r2 w2 where c: "child i (emit (Printf ''Master: reaped dead child %d (pid %d)\<newline>'' [Num i, Num p]) w1) = (r2, w2)"
      by (cases "child i (emit (Printf ''Master: reaped dead child %d (pid %d)\<newline>'' [Num i, Num p]) w1)")
    from child_frame[OF c] p1 assms True p pos c show ?thesis
      by (cases r2) (auto simp: restart_slot_def)
  qed
qed

text \<open>Both loops over the slots end: their bodies leave \<open>options.jobs\<close> alone.\<close>

termination restart_children_from
  by (relation "measure (\<lambda>(i, w). nat (jobs (options w) - i))")
     (auto dest!: restart_slot_frame[OF sym])

termination master_from
  by (relation "measure (\<lambda>(i, w). nat (jobs (options w) - i))")
     (auto dest!: child_frame[OF sym])

declare trap_signals_from.simps [simp del] restart_children_from.simps [simp del]
  master_from.simps [simp del] kill_from.simps [simp del] reap_all.simps [simp del]

section \<open>The loops, unrolled\<close>

text \<open>Unfolds an interval of integers with known ends.\<close>

lemma upto_eval: "[i..j] = (if i \<le> j then i # [i + 1..j] else [])"
  by (simp add: upto_rec1)

lemma trap_signals_from_eq:
  assumes "0 \<le> i" "sigcount w \<le> 0xff"
  shows "trap_signals_from on i w =
     (Returns (accepted_calls (sigaction_rejects w) (n_sigaction w) (length (bindings on w i))
                = length (bindings on w i)),
      w\<lparr>n_sigaction := n_sigaction w +
           min (Suc (accepted_calls (sigaction_rejects w) (n_sigaction w) (length (bindings on w i))))
               (length (bindings on w i)),
        disposition :=
          switch_all (take (accepted_calls (sigaction_rejects w) (n_sigaction w)
                              (length (bindings on w i))) (bindings on w i)) (disposition w),
        trace := trace w @
          sigaction_events (bindings on w i)
            (accepted_calls (sigaction_rejects w) (n_sigaction w) (length (bindings on w i)))\<rparr>)"
  using assms
proof (induction on i w rule: trap_signals_from.induct)
  case (1 on i w)
  show ?case
  proof (cases "i < sigcount w")
    case False
    then have "bindings on w i = []" by (simp add: bindings_def)
    with False show ?thesis
      by (subst trap_signals_from.simps) (simp add: switch_all_def sigaction_events_def)
  next
    case True
    define s where "s = signal (sigpairs w i)"
    define h where "h = (if on then action (sigpairs w i) else SIG_DFL)"
    have bs: "bindings on w i = (s, h) # bindings on w (i + 1)"
      using True by (simp add: bindings_def upto_rec1 s_def h_def)
    have rng: "0 \<le> i \<and> i < 0xff" using True "1.prems" by simp
    have unf0: "trap_signals_from on i w =
       (case sys_sigaction s h w of
          (r, w') \<Rightarrow> if r < 0 then (Returns False, w') else trap_signals_from on (i + 1) w')"
      using True rng by (subst trap_signals_from.simps) (simp add: s_def h_def)
    show ?thesis
    proof (cases "sigaction_rejects w (n_sigaction w)")
      case rej: True
      then show ?thesis unfolding unf0 using bs
        by (simp add: sys_sigaction_def Let_def switch_all_def sigaction_events_def emit_def)
    next
      case acc: False
      define w1 where "w1 = snd (sys_sigaction s h w)"
      have sa: "sys_sigaction s h w = (0, w1)"
        using acc by (simp add: w1_def sys_sigaction_def Let_def)
      have w1: "w1 = w\<lparr>n_sigaction := Suc (n_sigaction w),
                        disposition := (disposition w)(s := h),
                        trace := trace w @ [Sigaction s h 0]\<rparr>"
        using acc by (simp add: w1_def sys_sigaction_def Let_def emit_def)
      have b1: "bindings on w1 (i + 1) = bindings on w (i + 1)"
        by (simp add: bindings_def w1)
      have sa': "(0, w1) = sys_sigaction (signal (sigpairs w i))
                             (if on then action (sigpairs w i) else SIG_DFL) w"
        using sa by (simp add: s_def h_def)
      have pre: "0 \<le> i + 1" "sigcount w1 \<le> 0xff" using rng "1.prems" by (simp_all add: w1)
      note IH = "1.IH"[OF True rng sa' _ pre, simplified b1]
      show ?thesis
        unfolding unf0 sa using acc
        by (simp add: IH bs) (simp add: w1 switch_all_def sigaction_events_def)
    qed
  qed
qed

lemma child_in_parent:
  assumes "fork_plan w (n_fork w) = In_parent" "0 \<le> i" "i < 0xff"
  shows "child i w =
     (Returns True,
      w\<lparr>n_fork := Suc (n_fork w), last_pid := Suc (last_pid w),
        unreaped := unreaped w @ [Suc (last_pid w)],
        children := (children w)(i := int (Suc (last_pid w))),
        trace := trace w @ [Fork (int (Suc (last_pid w))),
                  Printf ''Spawning child %d (pid %d)\<newline>'' [Num i, Num (int (Suc (last_pid w)))]]\<rparr>)"
  using assms by (simp add: child_def sys_fork_def Let_def emit_def)

lemma child_fork_fails:
  assumes "fork_plan w (n_fork w) = Fork_fails"
  shows "child i w = (Returns False, w\<lparr>n_fork := Suc (n_fork w), trace := trace w @ [Fork (- 1)]\<rparr>)"
  using assms by (simp add: child_def sys_fork_def Let_def emit_def)

lemma spawn_upto_ok:
  assumes "\<forall>j<k. fork_plan w (n_fork w + j) = In_parent" "k \<le> 0xff"
  shows "spawn_upto k w =
     w\<lparr>n_fork := n_fork w + k, last_pid := last_pid w + k,
       unreaped := unreaped w @ map (\<lambda>j. Suc (last_pid w + j)) [0..<k],
       children := (\<lambda>i. if 0 \<le> i \<and> i < int k then int (last_pid w) + i + 1 else children w i),
       trace := trace w @ spawning (last_pid w) k\<rparr>"
  using assms
proof (induction k)
  case 0
  have "(\<lambda>i. if 0 \<le> i \<and> i < (0::int) then int (last_pid w) + i + 1 else children w i) = children w"
    by auto
  then show ?case by (simp add: spawning_def)
next
  case (Suc k)
  let ?v = "spawn_upto k w"
  have v: "?v = w\<lparr>n_fork := n_fork w + k, last_pid := last_pid w + k,
       unreaped := unreaped w @ map (\<lambda>j. Suc (last_pid w + j)) [0..<k],
       children := (\<lambda>i. if 0 \<le> i \<and> i < int k then int (last_pid w) + i + 1 else children w i),
       trace := trace w @ spawning (last_pid w) k\<rparr>"
    using Suc by simp
  have fp: "fork_plan ?v (n_fork ?v) = In_parent"
    using Suc.prems by (simp add: v)
  have rng: "0 \<le> int k" "int k < 0xff" using Suc.prems by simp_all
  show ?case
    unfolding spawn_upto.simps child_in_parent[OF fp rng]
    by (simp add: v spawning_def fun_eq_iff)
qed

lemma master_unroll:
  assumes "\<forall>j<k. fork_plan w (n_fork w + j) = In_parent" "k \<le> 0xff" "k \<le> nat (jobs (options w))"
  shows "master_from 0 w = master_from (int k) (spawn_upto k w)"
  using assms
proof (induction k)
  case 0
  then show ?case by simp
next
  case (Suc k)
  let ?v = "spawn_upto k w"
  have v: "?v = w\<lparr>n_fork := n_fork w + k, last_pid := last_pid w + k,
       unreaped := unreaped w @ map (\<lambda>j. Suc (last_pid w + j)) [0..<k],
       children := (\<lambda>i. if 0 \<le> i \<and> i < int k then int (last_pid w) + i + 1 else children w i),
       trace := trace w @ spawning (last_pid w) k\<rparr>"
    using Suc.prems by (intro spawn_upto_ok) simp_all
  have fp: "fork_plan ?v (n_fork ?v) = In_parent"
    using Suc.prems by (simp add: v)
  have rng: "0 \<le> int k" "int k < 0xff" using Suc.prems by simp_all
  have lt: "int k < jobs (options ?v)" using Suc.prems by (simp add: v)
  have "master_from 0 w = master_from (int k) ?v" using Suc by simp
  also have "\<dots> = master_from (int k + 1) (snd (child (int k) ?v))"
    using lt by (subst master_from.simps) (simp add: child_in_parent[OF fp rng])
  finally show ?case by (simp add: add.commute)
qed

lemma accepted_calls_le: "accepted_calls rej k m \<le> m"
  by (induction m arbitrary: k) auto

lemma accepted_calls_before:
  "j < accepted_calls rej k m \<Longrightarrow> \<not> rej (k + j)"
proof (induction m arbitrary: k j)
  case 0
  then show ?case by simp
next
  case (Suc m)
  show ?case
  proof (cases j)
    case 0
    with Suc.prems show ?thesis by (auto split: if_splits)
  next
    case (Suc j')
    with Suc.prems have "j' < accepted_calls rej (Suc k) m" by (auto split: if_splits)
    from Suc.IH[OF this] Suc show ?thesis by simp
  qed
qed

lemma accepted_calls_stop:
  "accepted_calls rej k m < m \<Longrightarrow> rej (k + accepted_calls rej k m)"
proof (induction m arbitrary: k)
  case 0
  then show ?case by simp
next
  case (Suc m)
  show ?case
  proof (cases "rej k")
    case True
    then show ?thesis by simp
  next
    case False
    with Suc.prems have "accepted_calls rej (Suc k) m < m" by simp
    from Suc.IH[OF this] False show ?thesis by simp
  qed
qed

lemma bindings_registered:
  "bindings True (register_signals w) 0 =
     [(SIGCHLD, Restart_children), (SIGINT, Terminate_children), (SIGTERM, Terminate_children)]"
  by (simp add: bindings_def register_signals_def upto_eval)

lemma master_rest_eq:
  "master_rest w =
     (if accepted_calls (sigaction_rejects w) (n_sigaction w) 3 = 3 then Suspends else Returns 1,
      w\<lparr>sigpairs := sigpairs (register_signals w), sigcount := 3,
        n_sigaction := n_sigaction w + min (Suc (accepted_calls (sigaction_rejects w) (n_sigaction w) 3)) 3,
        disposition :=
          switch_all (take (accepted_calls (sigaction_rejects w) (n_sigaction w) 3)
                        [(SIGCHLD, Restart_children), (SIGINT, Terminate_children),
                         (SIGTERM, Terminate_children)]) (disposition w),
        trace := trace w @
          sigaction_events [(SIGCHLD, Restart_children), (SIGINT, Terminate_children),
                            (SIGTERM, Terminate_children)]
            (accepted_calls (sigaction_rejects w) (n_sigaction w) 3) @
          (if accepted_calls (sigaction_rejects w) (n_sigaction w) 3 = 3 then []
           else [Stderr ''trap_signals() failed!\<newline>'' []])\<rparr>)"
proof -
  have sc: "sigcount (register_signals w) \<le> 0xff" by (simp add: register_signals_def)
  have f: "sigaction_rejects (register_signals w) = sigaction_rejects w"
    "n_sigaction (register_signals w) = n_sigaction w"
    "disposition (register_signals w) = disposition w"
    "trace (register_signals w) = trace w"
    by (simp_all add: register_signals_def)
  define a where "a = accepted_calls (sigaction_rejects w) (n_sigaction w) 3"
  have t: "trap_signals True (register_signals w) =
     (Returns (a = 3),
      (register_signals w)\<lparr>n_sigaction := n_sigaction w + min (Suc a) 3,
        disposition := switch_all (take a [(SIGCHLD, Restart_children), (SIGINT, Terminate_children),
                         (SIGTERM, Terminate_children)]) (disposition w),
        trace := trace w @ sigaction_events [(SIGCHLD, Restart_children), (SIGINT, Terminate_children),
                            (SIGTERM, Terminate_children)] a\<rparr>)"
  proof -
    have len: "length [(SIGCHLD, Restart_children), (SIGINT, Terminate_children),
                         (SIGTERM, Terminate_children)] = (3::nat)" by simp
    show ?thesis
      unfolding trap_signals_def
      by (rule trap_signals_from_eq[OF order_refl sc, of True,
                 unfolded bindings_registered f len, folded a_def])
  qed
  show ?thesis
    unfolding master_rest_def t
    by (simp add: register_signals_def emit_def a_def)
qed


lemma master_eq:
  assumes "jobs (options w) \<le> 0xff" and "\<forall>k. fork_plan w k \<noteq> In_child"
  shows "master w =
    (if spawned_ok w = nat (jobs (options w)) \<and> installed_ok w = 3 then Suspends else Returns 1,
     if spawned_ok w < nat (jobs (options w)) then
       w\<lparr>n_fork := Suc (n_fork w + spawned_ok w), last_pid := last_pid w + spawned_ok w,
         unreaped := unreaped w @ map (\<lambda>j. Suc (last_pid w + j)) [0..<spawned_ok w],
         children := (\<lambda>i. if 0 \<le> i \<and> i < int (spawned_ok w) then int (last_pid w) + i + 1
                          else children w i),
         trace := trace w @ spawning (last_pid w) (spawned_ok w) @
                  [Fork (- 1), Stderr ''child() failed!\<newline>'' []]\<rparr>
     else
       w\<lparr>n_fork := n_fork w + spawned_ok w, last_pid := last_pid w + spawned_ok w,
         unreaped := unreaped w @ map (\<lambda>j. Suc (last_pid w + j)) [0..<spawned_ok w],
         children := (\<lambda>i. if 0 \<le> i \<and> i < int (spawned_ok w) then int (last_pid w) + i + 1
                          else children w i),
         sigpairs := sigpairs (register_signals w), sigcount := 3,
         n_sigaction := n_sigaction w + min (Suc (installed_ok w)) 3,
         disposition := switch_all (take (installed_ok w) handlers) (disposition w),
         trace := trace w @ spawning (last_pid w) (spawned_ok w) @
                  sigaction_events handlers (installed_ok w) @
                  (if installed_ok w = 3 then [] else [Stderr ''trap_signals() failed!\<newline>'' []])\<rparr>)"
proof -
  define n where "n = nat (jobs (options w))"
  define a where "a = spawned_ok w"
  have a_le: "a \<le> n" unfolding a_def n_def spawned_ok_def by (rule accepted_calls_le)
  have n_le: "n \<le> 0xff" using assms(1) by (simp add: n_def)
  have ok: "\<forall>j<a. fork_plan w (n_fork w + j) = In_parent"
    using accepted_calls_before[of _ "\<lambda>k. fork_plan w k \<noteq> In_parent" "n_fork w" n]
    by (auto simp: a_def spawned_ok_def n_def)
  have a_ff: "a \<le> 0xff" using a_le n_le by simp
  have a_jobs: "a \<le> nat (jobs (options w))" using a_le by (simp add: n_def)
  define v where "v = spawn_upto a w"
  have v: "v = w\<lparr>n_fork := n_fork w + a, last_pid := last_pid w + a,
       unreaped := unreaped w @ map (\<lambda>j. Suc (last_pid w + j)) [0..<a],
       children := (\<lambda>i. if 0 \<le> i \<and> i < int a then int (last_pid w) + i + 1 else children w i),
       trace := trace w @ spawning (last_pid w) a\<rparr>"
    unfolding v_def by (rule spawn_upto_ok[OF ok a_ff])
  have unroll: "master w = master_from (int a) v"
    unfolding master_def v_def by (rule master_unroll[OF ok a_ff a_jobs])
  show ?thesis
  proof (cases "a < n")
    case True
    then have "fork_plan w (n_fork w + a) \<noteq> In_parent"
      using accepted_calls_stop[of "\<lambda>k. fork_plan w k \<noteq> In_parent" "n_fork w" n]
      by (simp add: a_def spawned_ok_def n_def)
    with assms(2) have "fork_plan w (n_fork w + a) = Fork_fails"
      by (cases "fork_plan w (n_fork w + a)") auto
    then have ff: "fork_plan v (n_fork v) = Fork_fails" by (simp add: v)
    have lt: "int a < jobs (options v)" using True by (simp add: v n_def)
    have "master_from (int a) v =
            (Returns 1, emit (Stderr ''child() failed!\<newline>'' [])
                          (v\<lparr>n_fork := Suc (n_fork v), trace := trace v @ [Fork (- 1)]\<rparr>))"
      using lt by (subst master_from.simps) (simp add: child_fork_fails[OF ff])
    then show ?thesis
      unfolding unroll using True
      by (simp add: a_def[symmetric] n_def[symmetric]) (simp add: v emit_def)
  next
    case False
    then have an: "a = n" using a_le by simp
    have ge: "\<not> int a < jobs (options v)" by (simp add: v an n_def)
    have "master_from (int a) v = master_rest v"
      using ge by (subst master_from.simps) simp
    then show ?thesis
      unfolding unroll master_rest_eq using False an
      by (simp add: a_def[symmetric] n_def[symmetric] installed_ok_def handlers_def)
         (simp add: v register_signals_def)
  qed
qed


text \<open>Strings in the buffer \<open>logfile\<close>, and the option loop with one more option.\<close>

lemma map_strcpy:
  assumes "length src < n"
  shows "map (strcpy dst src) [0..<n] = src @ NUL # map dst [Suc (length src)..<n]"
proof (rule nth_equalityI)
  show "length (map (strcpy dst src) [0..<n]) = length (src @ NUL # map dst [Suc (length src)..<n])"
    using assms by simp
next
  fix k assume "k < length (map (strcpy dst src) [0..<n])"
  then have k: "k < n" by simp
  show "map (strcpy dst src) [0..<n] ! k = (src @ NUL # map dst [Suc (length src)..<n]) ! k"
    using k assms
    by (auto simp: strcpy_def nth_append nth_Cons split: nat.splits intro!: arg_cong[where f = dst])
qed

lemma c_str_strcpy:
  assumes "NUL \<notin> set src" "length src < n"
  shows "c_str n (strcpy dst src) = Some src"
proof -
  have "takeWhile (\<lambda>c. c \<noteq> NUL) (src @ NUL # map dst [Suc (length src)..<n]) = src"
    using assms(1) by (auto simp: takeWhile_tail)
  then show ?thesis
    by (simp add: c_str_def map_strcpy[OF assms(2)])
qed

lemma map_strncpy:
  assumes "length src < n"
  shows "map (strncpy dst src n) [0..<n] = src @ replicate (n - length src) NUL"
proof (rule nth_equalityI)
  show "length (map (strncpy dst src n) [0..<n]) = length (src @ replicate (n - length src) NUL)"
    using assms by simp
next
  fix k assume "k < length (map (strncpy dst src n) [0..<n])"
  then have k: "k < n" by simp
  show "map (strncpy dst src n) [0..<n] ! k = (src @ replicate (n - length src) NUL) ! k"
    using k assms by (auto simp: strncpy_def nth_append)
qed

lemma c_str_strncpy:
  assumes "NUL \<notin> set src" "length src < n"
  shows "c_str n (strncpy dst src n) = Some src"
proof -
  have "replicate (n - length src) NUL = NUL # replicate (n - length src - 1) NUL"
    using assms(2) by (cases "n - length src") simp_all
  then have "takeWhile (\<lambda>c. c \<noteq> NUL) (src @ replicate (n - length src) NUL) = src"
    using assms(1) by (auto simp: takeWhile_tail)
  moreover have "NUL \<in> set (src @ replicate (n - length src) NUL)"
    using assms(2) by simp
  ultimately show ?thesis
    by (simp add: c_str_def map_strncpy[OF assms(2)] del: set_append)
qed

lemma optparse_loop_snoc:
  "optparse_loop a (gs @ [g]) w =
     (case optparse_loop a gs w of
        (Returns u, w1) \<Rightarrow> optparse_loop a [g] w1
      | (Exits n, w1) \<Rightarrow> (Exits n, w1)
      | (Faults, w1) \<Rightarrow> (Faults, w1)
      | (Suspends, w1) \<Rightarrow> (Suspends, w1))"
proof (induction gs arbitrary: w)
  case Nil
  then show ?case by simp
next
  case (Cons x gs)
  obtain opt optarg where x: "x = (opt, optarg)" by (cases x)
  show ?case using Cons.IH
    by (simp add: x split: option.splits)
qed


text \<open>The default configuration.\<close>

lemma started_default:
  "started [] fp sr he =
     (boot fp sr he [])\<lparr>options := \<lparr>jobs = 2, daemonize = False,
                                      logfile = strcpy (\<lambda>_. NUL) ''/dev/null''\<rparr>\<rparr>"
  by (simp add: started_def optparse_def boot_def)


text \<open>A job count above the 255 slots: the spawn for slot 255 forks, then faults.\<close>

lemma master_overflow:
  assumes "0xff < jobs (options w)" and "\<forall>j<256. fork_plan w (n_fork w + j) = In_parent"
  shows "master w =
     (Faults,
      w\<lparr>n_fork := n_fork w + 256, last_pid := last_pid w + 256,
        unreaped := unreaped w @ map (\<lambda>j. Suc (last_pid w + j)) [0..<256],
        children := (\<lambda>i. if 0 \<le> i \<and> i < 255 then int (last_pid w) + i + 1 else children w i),
        trace := trace w @ spawning (last_pid w) 256\<rparr>)"
proof -
  have ok: "\<forall>j<255. fork_plan w (n_fork w + j) = In_parent" using assms(2) by simp
  have le: "(255::nat) \<le> 0xff" by simp
  have jb: "255 \<le> nat (jobs (options w))" using assms(1) by simp
  define v where "v = spawn_upto 255 w"
  have v: "v = w\<lparr>n_fork := n_fork w + 255, last_pid := last_pid w + 255,
       unreaped := unreaped w @ map (\<lambda>j. Suc (last_pid w + j)) [0..<255],
       children := (\<lambda>i. if 0 \<le> i \<and> i < int 255 then int (last_pid w) + i + 1 else children w i),
       trace := trace w @ spawning (last_pid w) 255\<rparr>"
    unfolding v_def by (rule spawn_upto_ok[OF ok le])
  have unroll: "master w = master_from (int 255) v"
    unfolding master_def v_def by (rule master_unroll[OF ok le jb])
  have fp: "fork_plan v (n_fork v) = In_parent" using assms(2) by (simp add: v)
  have lt: "255 < jobs (options v)" using assms(1) by (simp add: v)
  have c: "child 255 v =
     (Faults, v\<lparr>n_fork := Suc (n_fork v), last_pid := Suc (last_pid v),
                unreaped := unreaped v @ [Suc (last_pid v)],
                trace := trace v @ [Fork (int (Suc (last_pid v))),
                  Printf ''Spawning child %d (pid %d)\<newline>'' [Num 255, Num (int (Suc (last_pid v)))]]\<rparr>)"
    using fp by (simp add: child_def sys_fork_def Let_def emit_def)
  have s: "spawning p (256::nat) = spawning p 255 @
      [Fork (int (Suc (p + 255))),
       Printf ''Spawning child %d (pid %d)\<newline>'' [Num 255, Num (int (Suc (p + 255)))]]" for p
  proof -
    have "[0..<256] = [0..<255] @ [255::nat]"
      using upt_Suc_append[of 0 255] by simp
    then show ?thesis unfolding spawning_def by simp
  qed
  have u: "[0..<256] = [0..<255] @ [255::nat]"
    using upt_Suc_append[of 0 255] by simp
  have "master_from 255 v = (Faults, snd (child 255 v))"
    using lt by (subst master_from.simps) (simp add: c)
  then show ?thesis
    unfolding unroll by (simp add: c) (simp add: v s u)
qed


text \<open>The option \<open>-j\<close> alone, and \<open>atoi\<close> at 256.\<close>

lemma optparse_jobs:
  assumes "atoi a = Some n"
  shows "optparse argv0 [(CHR ''j'', a)] w =
     (Returns (), w\<lparr>options := \<lparr>jobs = n, daemonize = False,
                                 logfile = strcpy (logfile (options w)) ''/dev/null''\<rparr>\<rparr>)"
  using assms by (simp add: optparse_def)

lemma atoi_256: "atoi ''256'' = Some 256"
  by (simp add: atoi_def isspace_def isdigit_def)


text \<open>One pass of \<open>restart_children\<close>, slot by slot.\<close>

lemma child_supervisor:
  assumes "fork_plan v (n_fork v) \<noteq> In_child" "0 \<le> i" "i < 0xff"
  shows "\<exists>q. (0 < q \<longrightarrow> q = int (Suc (last_pid v))) \<and> child i v =
     (Returns (0 < q),
      if 0 < q
      then v\<lparr>n_fork := Suc (n_fork v), last_pid := Suc (last_pid v),
             unreaped := unreaped v @ [Suc (last_pid v)],
             children := (children v)(i := q),
             trace := trace v @ [Fork q, Printf ''Spawning child %d (pid %d)\<newline>'' [Num i, Num q]]\<rparr>
      else v\<lparr>n_fork := Suc (n_fork v), trace := trace v @ [Fork q]\<rparr>)"
proof (cases "fork_plan v (n_fork v)")
  case Fork_fails
  then show ?thesis by (intro exI[of _ "- 1"]) (simp add: child_fork_fails)
next
  case In_parent
  then show ?thesis using assms(2,3)
    by (intro exI[of _ "int (Suc (last_pid v))"]) (simp add: child_in_parent)
next
  case In_child
  with assms(1) show ?thesis by simp
qed

lemma restart_slot_block:
  assumes "0 \<le> i" "i < 0xff" "\<forall>k. fork_plan v k \<noteq> In_child"
  shows "\<exists>r q v'. restart_slot i v = (Returns (), v') \<and>
           trace v' = trace v @ slot_events i (children v i) r q \<and>
           children v' = (if 0 < r \<and> 0 < q then (children v)(i := q) else children v)"
proof -
  obtain r v1 where p: "sys_waitpid (children v i) v = (r, v1)"
    by (cases "sys_waitpid (children v i) v")
  note f = sys_waitpid_frame[OF p]
  consider "r < 0" | "r = 0" | "0 < r" by linarith
  then show ?thesis
  proof cases
    case 1
    then show ?thesis using assms(1,2) p f
      by (intro exI[of _ r] exI[of _ 0]) (simp add: restart_slot_def slot_events_def)
  next
    case 2
    then show ?thesis using assms(1,2) p f
      by (intro exI[of _ r] exI[of _ 0]) (simp add: restart_slot_def slot_events_def)
  next
    case 3
    let ?v2 = "emit (Printf ''Master: reaped dead child %d (pid %d)\<newline>'' [Num i, Num r]) v1"
    have "fork_plan ?v2 (n_fork ?v2) \<noteq> In_child" using assms(3) f by simp
    from child_supervisor[OF this assms(1,2)] obtain q where
      c: "child i ?v2 =
     (Returns (0 < q),
      if 0 < q
      then ?v2\<lparr>n_fork := Suc (n_fork ?v2), last_pid := Suc (last_pid ?v2),
             unreaped := unreaped ?v2 @ [Suc (last_pid ?v2)],
             children := (children ?v2)(i := q),
             trace := trace ?v2 @ [Fork q, Printf ''Spawning child %d (pid %d)\<newline>'' [Num i, Num q]]\<rparr>
      else ?v2\<lparr>n_fork := Suc (n_fork ?v2), trace := trace ?v2 @ [Fork q]\<rparr>)" by blast
    show ?thesis using 3 assms(1,2) p f
      by (intro exI[of _ r] exI[of _ q]) (simp add: restart_slot_def slot_events_def c)
  qed
qed

lemma pass_upto_frame:
  "options (pass_upto k w) = options w \<and> fork_plan (pass_upto k w) = fork_plan w \<and>
   has_exited (pass_upto k w) = has_exited w"
proof (induction k)
  case 0
  then show ?case by simp
next
  case (Suc k)
  obtain r v' where "restart_slot (int k) (pass_upto k w) = (r, v')"
    by (cases "restart_slot (int k) (pass_upto k w)")
  from restart_slot_frame[OF this] this Suc show ?case by simp
qed

lemma restart_unroll:
  assumes "jobs (options w) \<le> 0xff" "\<forall>k. fork_plan w k \<noteq> In_child" "k \<le> nat (jobs (options w))"
  shows "restart_children_from 0 w = restart_children_from (int k) (pass_upto k w)"
  using assms(3)
proof (induction k)
  case 0
  then show ?case by simp
next
  case (Suc k)
  let ?v = "pass_upto k w"
  have rng: "0 \<le> int k" "int k < 0xff" using Suc.prems assms(1) by simp_all
  have sup: "\<forall>j. fork_plan ?v j \<noteq> In_child" using assms(2) pass_upto_frame[of k w] by simp
  from restart_slot_block[OF rng sup] obtain v' where
    s: "restart_slot (int k) ?v = (Returns (), v')" by blast
  have lt: "int k < jobs (options ?v)" using Suc.prems pass_upto_frame[of k w] by simp
  have "restart_children_from 0 w = restart_children_from (int k) ?v" using Suc by simp
  also have "\<dots> = restart_children_from (int k + 1) (snd (restart_slot (int k) ?v))"
    using lt by (subst restart_children_from.simps) (simp add: s)
  finally show ?case by (simp add: add.commute)
qed

lemma restart_children_eq:
  assumes "jobs (options w) \<le> 0xff" "\<forall>k. fork_plan w k \<noteq> In_child"
  shows "restart_children w = (Returns (), pass_upto (nat (jobs (options w))) w)"
proof -
  let ?n = "nat (jobs (options w))"
  have "\<not> int ?n < jobs (options (pass_upto ?n w))" using pass_upto_frame[of ?n w] by simp
  then have "restart_children_from (int ?n) (pass_upto ?n w) = (Returns (), pass_upto ?n w)"
    by (subst restart_children_from.simps) simp
  then show ?thesis
    unfolding restart_children_def using restart_unroll[OF assms order_refl] by simp
qed

lemma pass_upto_blocks:
  assumes "jobs (options w) \<le> 0xff" "\<forall>k. fork_plan w k \<noteq> In_child" "k \<le> nat (jobs (options w))"
  shows "\<exists>rs qs. length rs = k \<and> length qs = k \<and>
           trace (pass_upto k w) =
             trace w @ concat (map (\<lambda>j. slot_events (int j) (children w (int j)) (rs ! j) (qs ! j)) [0..<k]) \<and>
           children (pass_upto k w) =
             (\<lambda>i. if 0 \<le> i \<and> i < int k \<and> 0 < rs ! nat i \<and> 0 < qs ! nat i then qs ! nat i
                  else children w i)"
  using assms(3)
proof (induction k)
  case 0
  show ?case by (auto simp: fun_eq_iff)
next
  case (Suc k)
  let ?v = "pass_upto k w"
  from Suc obtain rs qs where rq: "length rs = k" "length qs = k"
    and tr: "trace ?v = trace w @ concat (map (\<lambda>j. slot_events (int j) (children w (int j)) (rs ! j) (qs ! j)) [0..<k])"
    and ch: "children ?v = (\<lambda>i. if 0 \<le> i \<and> i < int k \<and> 0 < rs ! nat i \<and> 0 < qs ! nat i then qs ! nat i
                  else children w i)"
    by auto
  have rng: "0 \<le> int k" "int k < 0xff" using Suc.prems assms(1) by simp_all
  have sup: "\<forall>j. fork_plan ?v j \<noteq> In_child" using assms(2) pass_upto_frame[of k w] by simp
  from restart_slot_block[OF rng sup] obtain r q v' where
    s: "restart_slot (int k) ?v = (Returns (), v')"
    and tr': "trace v' = trace ?v @ slot_events (int k) (children ?v (int k)) r q"
    and ch': "children v' = (if 0 < r \<and> 0 < q then (children ?v)(int k := q) else children ?v)"
    by blast
  have ck: "children ?v (int k) = children w (int k)" by (simp add: ch)
  have m: "map (\<lambda>j. slot_events (int j) (children w (int j)) ((rs @ [r]) ! j) ((qs @ [q]) ! j)) [0..<k]
         = map (\<lambda>j. slot_events (int j) (children w (int j)) (rs ! j) (qs ! j)) [0..<k]"
    using rq by (intro map_cong) (simp_all add: nth_append)
  have t: "trace (pass_upto (Suc k) w) =
        trace w @ concat (map (\<lambda>j. slot_events (int j) (children w (int j)) ((rs @ [r]) ! j) ((qs @ [q]) ! j)) [0..<Suc k])"
  proof -
    have last: "(rs @ [r]) ! k = r" "(qs @ [q]) ! k = q" using rq by (simp_all add: nth_append)
    show ?thesis
      unfolding pass_upto.simps s snd_conv tr' tr ck upt_Suc_append[OF le0] map_append concat_append m
      by (simp add: last)
  qed
  have c: "children (pass_upto (Suc k) w) =
        (\<lambda>i. if 0 \<le> i \<and> i < int (Suc k) \<and> 0 < (rs @ [r]) ! nat i \<and> 0 < (qs @ [q]) ! nat i
             then (qs @ [q]) ! nat i else children w i)"
  proof (rule ext)
    fix i :: int
    show "children (pass_upto (Suc k) w) i =
        (if 0 \<le> i \<and> i < int (Suc k) \<and> 0 < (rs @ [r]) ! nat i \<and> 0 < (qs @ [q]) ! nat i
             then (qs @ [q]) ! nat i else children w i)"
    proof (cases "i = int k")
      case True
      then show ?thesis using rq by (simp add: s ch' ch nth_append)
    next
      case False
      then have "0 \<le> i \<and> i < int (Suc k) \<longleftrightarrow> 0 \<le> i \<and> i < int k" by auto
      moreover have "0 \<le> i \<and> i < int k \<Longrightarrow> nat i < k" by auto
      ultimately show ?thesis using False rq
        by (auto simp: s ch' ch nth_append)
    qed
  qed
  show ?case
    by (intro exI[of _ "rs @ [r]"] exI[of _ "qs @ [q]"]) (simp only: t c, simp add: rq)
qed


text \<open>The body of the loop for a slot that holds a positive pid.\<close>

lemma find_filter_eq:
  "find P (filter (\<lambda>q. q = a) xs) = (if a \<in> set xs \<and> P a then Some a else None)"
  by (induction xs) auto

lemma filter_eq_Nil: "filter (\<lambda>q. q = a) xs = [] \<longleftrightarrow> a \<notin> set xs"
  by (induction xs) auto

lemma sys_waitpid_pos:
  assumes "0 < p"
  shows "sys_waitpid p v =
     (if nat p \<notin> set (unreaped v)
      then (- 1, v\<lparr>n_wait := Suc (n_wait v), trace := trace v @ [Waitpid p (- 1)]\<rparr>)
      else if has_exited v (n_wait v) (nat p)
      then (p, v\<lparr>n_wait := Suc (n_wait v), unreaped := remove1 (nat p) (unreaped v),
                 trace := trace v @ [Waitpid p p]\<rparr>)
      else (0, v\<lparr>n_wait := Suc (n_wait v), trace := trace v @ [Waitpid p 0]\<rparr>))"
proof -
  have sel: "selects v p = (\<lambda>q. q = nat p)" using assms by (simp add: selects_def fun_eq_iff)
  show ?thesis using assms
    by (simp add: sys_waitpid_def sel Let_def find_filter_eq filter_eq_Nil emit_def)
qed

lemma restart_slot_pos:
  assumes "0 \<le> i" "i < 0xff" "0 < children v i"
  shows "restart_slot i v =
     (if nat (children v i) \<notin> set (unreaped v)
      then (Returns (), v\<lparr>n_wait := Suc (n_wait v),
                           trace := trace v @ [Waitpid (children v i) (- 1), Perror ''waitpid()'']\<rparr>)
      else if \<not> has_exited v (n_wait v) (nat (children v i))
      then (Returns (), v\<lparr>n_wait := Suc (n_wait v),
                           trace := trace v @ [Waitpid (children v i) 0]\<rparr>)
      else case child i
             (v\<lparr>n_wait := Suc (n_wait v), unreaped := remove1 (nat (children v i)) (unreaped v),
                trace := trace v @ [Waitpid (children v i) (children v i),
                  Printf ''Master: reaped dead child %d (pid %d)\<newline>''
                    [Num i, Num (children v i)]]\<rparr>) of
             (Returns _, w2) \<Rightarrow> (Returns (), w2)
           | (Exits n, w2) \<Rightarrow> (Exits n, w2)
           | (Faults, w2) \<Rightarrow> (Faults, w2)
           | (Suspends, w2) \<Rightarrow> (Suspends, w2))"
  using assms by (simp add: restart_slot_def sys_waitpid_pos emit_def)

lemma restart_slot_respawns:
  assumes "0 \<le> i" "i < 0xff" "0 < children v i" "nat (children v i) \<in> set (unreaped v)"
    "has_exited v (n_wait v) (nat (children v i))" "fork_plan v (n_fork v) = In_parent"
  shows "restart_slot i v =
     (Returns (),
      v\<lparr>n_wait := Suc (n_wait v), n_fork := Suc (n_fork v), last_pid := Suc (last_pid v),
        unreaped := remove1 (nat (children v i)) (unreaped v) @ [Suc (last_pid v)],
        children := (children v)(i := int (Suc (last_pid v))),
        trace := trace v @ slot_events i (children v i) (children v i) (int (Suc (last_pid v)))\<rparr>)"
proof -
  let ?v2 = "v\<lparr>n_wait := Suc (n_wait v), unreaped := remove1 (nat (children v i)) (unreaped v),
                trace := trace v @ [Waitpid (children v i) (children v i),
                  Printf ''Master: reaped dead child %d (pid %d)\<newline>''
                    [Num i, Num (children v i)]]\<rparr>"
  have fp: "fork_plan ?v2 (n_fork ?v2) = In_parent" using assms(6) by simp
  show ?thesis
    unfolding restart_slot_pos[OF assms(1-3)] child_in_parent[OF fp assms(1,2)]
    using assms(3-5) by (simp add: slot_events_def)
qed

lemma restart_slot_keeps:
  assumes "0 \<le> i" "i < 0xff" "0 < children v i" "fork_plan v (n_fork v) \<noteq> In_child"
  shows "n_wait (snd (restart_slot i v)) = Suc (n_wait v) \<and>
         last_pid v \<le> last_pid (snd (restart_slot i v)) \<and>
         (\<forall>j. j \<noteq> i \<longrightarrow> children (snd (restart_slot i v)) j = children v j) \<and>
         (\<forall>q. q \<in> set (unreaped v) \<and> q \<noteq> nat (children v i) \<longrightarrow>
              q \<in> set (unreaped (snd (restart_slot i v))))"
proof -
  let ?v2 = "v\<lparr>n_wait := Suc (n_wait v), unreaped := remove1 (nat (children v i)) (unreaped v),
                trace := trace v @ [Waitpid (children v i) (children v i),
                  Printf ''Master: reaped dead child %d (pid %d)\<newline>''
                    [Num i, Num (children v i)]]\<rparr>"
  have fp: "fork_plan ?v2 (n_fork ?v2) \<noteq> In_child" using assms(4) by simp
  from child_supervisor[OF fp assms(1,2)] obtain q where
    c: "child i ?v2 =
     (Returns (0 < q),
      if 0 < q
      then ?v2\<lparr>n_fork := Suc (n_fork ?v2), last_pid := Suc (last_pid ?v2),
             unreaped := unreaped ?v2 @ [Suc (last_pid ?v2)],
             children := (children ?v2)(i := q),
             trace := trace ?v2 @ [Fork q, Printf ''Spawning child %d (pid %d)\<newline>'' [Num i, Num q]]\<rparr>
      else ?v2\<lparr>n_fork := Suc (n_fork ?v2), trace := trace ?v2 @ [Fork q]\<rparr>)" by blast
  show ?thesis
    unfolding restart_slot_pos[OF assms(1-3)] c
    by (auto simp: in_set_remove1)
qed


text \<open>Workers that have exited when their slot is polled are respawned in the same pass.\<close>

lemma pass_upto_respawns:
  assumes cap: "jobs (options w) \<le> 0xff"
    and fp: "\<forall>k. fork_plan w k = In_parent"
    and pos: "\<forall>j. 0 \<le> j \<and> j < jobs (options w) \<longrightarrow>
                 0 < children w j \<and> children w j \<le> int (last_pid w)"
    and inj: "inj_on (children w) {0..<jobs (options w)}"
    and k: "k \<le> nat (jobs (options w))"
  shows "n_wait (pass_upto k w) = n_wait w + k \<and>
         last_pid w \<le> last_pid (pass_upto k w) \<and>
         (\<forall>j. int k \<le> j \<longrightarrow> children (pass_upto k w) j = children w j) \<and>
         (\<forall>j. int k \<le> j \<and> j < jobs (options w) \<and> nat (children w j) \<in> set (unreaped w) \<longrightarrow>
              nat (children w j) \<in> set (unreaped (pass_upto k w))) \<and>
         (\<forall>j. 0 \<le> j \<and> j < int k \<and> nat (children w j) \<in> set (unreaped w) \<and>
              has_exited w (n_wait w + nat j) (nat (children w j)) \<longrightarrow>
              int (last_pid w) < children (pass_upto k w) j \<and>
              nat (children (pass_upto k w) j) \<in> set (unreaped (pass_upto k w)))"
  using k
proof (induction k)
  case 0
  then show ?case by auto
next
  case (Suc k)
  let ?v = "pass_upto k w"
  let ?v' = "snd (restart_slot (int k) ?v)"
  let ?p = "children w (int k)"
  have kk: "k \<le> nat (jobs (options w))" using Suc.prems by simp
  note IH = Suc.IH[OF kk]
  have B1: "n_wait ?v = n_wait w + k" and B2: "last_pid w \<le> last_pid ?v"
    and B3: "\<And>j. int k \<le> j \<Longrightarrow> children ?v j = children w j"
    and B4: "\<And>j. int k \<le> j \<Longrightarrow> j < jobs (options w) \<Longrightarrow> nat (children w j) \<in> set (unreaped w)
                \<Longrightarrow> nat (children w j) \<in> set (unreaped ?v)"
    and B5: "\<And>j. 0 \<le> j \<Longrightarrow> j < int k \<Longrightarrow> nat (children w j) \<in> set (unreaped w) \<Longrightarrow>
              has_exited w (n_wait w + nat j) (nat (children w j)) \<Longrightarrow>
              int (last_pid w) < children ?v j \<and> nat (children ?v j) \<in> set (unreaped ?v)"
    using IH by auto
  have rng: "0 \<le> int k" "int k < 0xff" "int k < jobs (options w)"
    using Suc.prems cap by simp_all
  have fr: "fork_plan ?v = fork_plan w" "has_exited ?v = has_exited w"
    using pass_upto_frame[of k w] by simp_all
  have pk: "children ?v (int k) = ?p" using B3[of "int k"] by simp
  have ppos: "0 < ?p" "?p \<le> int (last_pid w)" using pos rng by auto
  have cpos: "0 < children ?v (int k)" using pk ppos by simp
  have nic: "fork_plan ?v (n_fork ?v) \<noteq> In_child" using fp fr by simp
  note K = restart_slot_keeps[OF rng(1,2) cpos nic, unfolded pk]
  have K1: "n_wait ?v' = Suc (n_wait ?v)" and K2: "last_pid ?v \<le> last_pid ?v'"
    and K3: "\<And>j. j \<noteq> int k \<Longrightarrow> children ?v' j = children ?v j"
    and K4: "\<And>q. q \<in> set (unreaped ?v) \<Longrightarrow> q \<noteq> nat ?p \<Longrightarrow> q \<in> set (unreaped ?v')"
    using K by auto
  have C1: "n_wait (pass_upto (Suc k) w) = n_wait w + Suc k" using K1 B1 by simp
  have C2: "last_pid w \<le> last_pid (pass_upto (Suc k) w)" using K2 B2 by simp
  have C3: "children (pass_upto (Suc k) w) j = children w j" if "int (Suc k) \<le> j" for j
    using that K3[of j] B3[of j] by simp
  have C4: "nat (children w j) \<in> set (unreaped (pass_upto (Suc k) w))"
    if "int (Suc k) \<le> j" "j < jobs (options w)" "nat (children w j) \<in> set (unreaped w)" for j
  proof -
    have "nat (children w j) \<in> set (unreaped ?v)" using B4[of j] that by simp
    moreover have "children w j \<noteq> ?p"
    proof
      assume eq: "children w j = ?p"
      have "j \<in> {0..<jobs (options w)}" "int k \<in> {0..<jobs (options w)}"
        using that rng by simp_all
      from inj_onD[OF inj eq this] that(1) show False by simp
    qed
    moreover have "0 < children w j" using pos that by auto
    ultimately show ?thesis using K4[of "nat (children w j)"] ppos by simp
  qed
  have C5: "int (last_pid w) < children (pass_upto (Suc k) w) j \<and>
            nat (children (pass_upto (Suc k) w) j) \<in> set (unreaped (pass_upto (Suc k) w))"
    if "0 \<le> j" "j < int (Suc k)" "nat (children w j) \<in> set (unreaped w)"
       "has_exited w (n_wait w + nat j) (nat (children w j))" for j
  proof (cases "j = int k")
    case False
    then have jk: "j < int k" using that by simp
    from B5[OF that(1) jk that(3,4)]
    have a: "int (last_pid w) < children ?v j" and b: "nat (children ?v j) \<in> set (unreaped ?v)"
      by simp_all
    have "nat (children ?v j) \<noteq> nat ?p" using a ppos by simp
    from K4[OF b this] a K3[OF False] show ?thesis by simp
  next
    case True
    have m: "nat (children ?v (int k)) \<in> set (unreaped ?v)"
      using B4[of "int k"] rng that True pk by simp
    have e: "has_exited ?v (n_wait ?v) (nat (children ?v (int k)))"
      using that True pk fr B1 by simp
    have f: "fork_plan ?v (n_fork ?v) = In_parent" using fp fr by simp
    note R = restart_slot_respawns[OF rng(1,2) cpos m e f]
    have "nat (1 + int (last_pid ?v)) = Suc (last_pid ?v)" by simp
    then show ?thesis using True B2 by (simp add: R)
  qed
  show ?case using C1 C2 C3 C4 C5 by blast
qed


text \<open>The calls of \<open>waitpid\<close> in the events of a pass.\<close>

lemma polls_append: "polls (xs @ ys) = polls xs @ polls ys"
  by (induction xs rule: polls.induct) simp_all

lemma polls_slot_events: "polls (slot_events i p r q) = [(p, r)]"
  by (simp add: slot_events_def)

lemma polls_concat_slots:
  "polls (concat (map (\<lambda>j. slot_events (f j) (g j) (h j) (e j)) ks)) = map (\<lambda>j. (g j, h j)) ks"
  by (induction ks) (simp_all add: polls_append polls_slot_events)

lemma added_append: "trace w' = trace w @ es \<Longrightarrow> added w w' = es"
  by (simp add: added_def)

lemma restart_children_blocks:
  assumes "jobs (options w) \<le> 0xff" "\<forall>k. fork_plan w k \<noteq> In_child"
  shows "\<exists>rs qs. length rs = nat (jobs (options w)) \<and> length qs = nat (jobs (options w)) \<and>
           fst (restart_children w) = Returns () \<and>
           added w (snd (restart_children w)) =
             concat (map (\<lambda>j. slot_events (int j) (children w (int j)) (rs ! j) (qs ! j))
                       [0..<nat (jobs (options w))]) \<and>
           children (snd (restart_children w)) =
             (\<lambda>i. if 0 \<le> i \<and> i < jobs (options w) \<and> 0 < rs ! nat i \<and> 0 < qs ! nat i
                  then qs ! nat i else children w i)"
proof -
  from pass_upto_blocks[OF assms order_refl] obtain rs qs where
    l: "length rs = nat (jobs (options w))" "length qs = nat (jobs (options w))"
    and t: "trace (pass_upto (nat (jobs (options w))) w) =
             trace w @ concat (map (\<lambda>j. slot_events (int j) (children w (int j)) (rs ! j) (qs ! j))
                                 [0..<nat (jobs (options w))])"
    and c: "children (pass_upto (nat (jobs (options w))) w) =
             (\<lambda>i. if 0 \<le> i \<and> i < int (nat (jobs (options w))) \<and> 0 < rs ! nat i \<and> 0 < qs ! nat i
                  then qs ! nat i else children w i)"
    by blast
  have c': "children (pass_upto (nat (jobs (options w))) w) =
             (\<lambda>i. if 0 \<le> i \<and> i < jobs (options w) \<and> 0 < rs ! nat i \<and> 0 < qs ! nat i
                  then qs ! nat i else children w i)"
    unfolding c by (auto simp: fun_eq_iff)
  show ?thesis
    unfolding restart_children_eq[OF assms] fst_conv snd_conv
    using l added_append[OF t] c' by blast
qed


text \<open>Three workers running, and a pass in which the first and the third have exited.\<close>

lemma started_jobs:
  assumes "atoi a = Some n"
  shows "started [(CHR ''j'', a)] fp sr he =
     (boot fp sr he [])\<lparr>options := \<lparr>jobs = n, daemonize = False,
                                      logfile = strcpy (\<lambda>_. NUL) ''/dev/null''\<rparr>\<rparr>"
  unfolding started_def optparse_jobs[OF assms] by (simp add: boot_def)

lemma atoi_3: "atoi ''3'' = Some 3"
  by (simp add: atoi_def isspace_def isdigit_def)

lemma asleep_three:
  assumes "fp 0 = In_parent" "fp 1 = In_parent" "fp 2 = In_parent" "\<forall>k. fp k \<noteq> In_child"
    "\<not> sr 0" "\<not> sr 1" "\<not> sr 2"
  shows "asleep [(CHR ''j'', ''3'')] fp sr he =
    \<lparr>options = \<lparr>jobs = 3, daemonize = False, logfile = strcpy (\<lambda>_. NUL) ''/dev/null''\<rparr>,
     sigcount = 3,
     sigpairs = (\<lambda>_. \<lparr>signal = 0, action = SIG_DFL\<rparr>)
                  (0 := \<lparr>signal = SIGCHLD, action = Restart_children\<rparr>,
                   1 := \<lparr>signal = SIGINT, action = Terminate_children\<rparr>,
                   2 := \<lparr>signal = SIGTERM, action = Terminate_children\<rparr>),
     children = (\<lambda>i. if 0 \<le> i \<and> i < 3 then 100 + i + 1 else 0),
     disposition = (\<lambda>_. SIG_DFL)(SIGCHLD := Restart_children, SIGINT := Terminate_children,
                                  SIGTERM := Terminate_children),
     unreaped = [101, 102, 103],
     last_pid = 103,
     pgid = 100,
     fork_plan = fp,
     n_fork = 3,
     sigaction_rejects = sr,
     n_sigaction = 3,
     has_exited = he,
     n_wait = 0,
     draws = [],
     trace = [Fork 101, Printf ''Spawning child %d (pid %d)\<newline>'' [Num 0, Num 101],
              Fork 102, Printf ''Spawning child %d (pid %d)\<newline>'' [Num 1, Num 102],
              Fork 103, Printf ''Spawning child %d (pid %d)\<newline>'' [Num 2, Num 103],
              Sigaction SIGCHLD Restart_children 0, Sigaction SIGINT Terminate_children 0,
              Sigaction SIGTERM Terminate_children 0]\<rparr>"
proof -
  let ?w = "started [(CHR ''j'', ''3'')] fp sr he"
  have w: "?w = (boot fp sr he [])\<lparr>options := \<lparr>jobs = 3, daemonize = False,
                                      logfile = strcpy (\<lambda>_. NUL) ''/dev/null''\<rparr>\<rparr>"
    by (rule started_jobs[OF atoi_3])
  have cap: "jobs (options ?w) \<le> 0xff" by (simp add: w)
  have sup: "\<forall>k. fork_plan ?w k \<noteq> In_child" using assms(4) by (simp add: w boot_def)
  have a: "spawned_ok ?w = 3" using assms(1-3)
    by (simp add: spawned_ok_def w boot_def eval_nat_numeral)
  have b: "installed_ok ?w = 3" using assms(5-7)
    by (simp add: installed_ok_def w boot_def eval_nat_numeral)
  show ?thesis
    unfolding asleep_def master_eq[OF cap sup] a b
    by (simp add: w boot_def register_signals_def handlers_def switch_all_def spawning_def
          sigaction_events_def upt_rec fun_eq_iff)
qed


lemma pass_three:
  "restart_children (asleep [(CHR ''j'', ''3'')] (\<lambda>_. In_parent) (\<lambda>_. False) (\<lambda>t q. q = 101 \<or> q = 103)) =
    (Returns (),
     (asleep [(CHR ''j'', ''3'')] (\<lambda>_. In_parent) (\<lambda>_. False) (\<lambda>t q. q = 101 \<or> q = 103))
     \<lparr>children := (\<lambda>i. if i = 0 then 104 else if i = 1 then 102 else if i = 2 then 105 else 0),
      unreaped := [102, 104, 105], last_pid := 105, n_fork := 5, n_wait := 3,
      trace := trace (asleep [(CHR ''j'', ''3'')] (\<lambda>_. In_parent) (\<lambda>_. False) (\<lambda>t q. q = 101 \<or> q = 103)) @
        [Waitpid 101 101, Printf ''Master: reaped dead child %d (pid %d)\<newline>'' [Num 0, Num 101],
         Fork 104, Printf ''Spawning child %d (pid %d)\<newline>'' [Num 0, Num 104],
         Waitpid 102 0,
         Waitpid 103 103, Printf ''Master: reaped dead child %d (pid %d)\<newline>'' [Num 2, Num 103],
         Fork 105, Printf ''Spawning child %d (pid %d)\<newline>'' [Num 2, Num 105]]\<rparr>)"
  by (simp add: asleep_three restart_children_def restart_children_from.simps restart_slot_pos
        child_in_parent fun_eq_iff)


text \<open>The three steps of \<open>terminate_children\<close>.\<close>

lemma restore_from_trace:
  "trap_signals_from False i w = (r, w') \<Longrightarrow>
     (\<exists>ss. trace w' = trace w @ ss \<and> (\<forall>e\<in>set ss. is_restore e)) \<and>
     (r = Faults \<or> (\<exists>b. r = Returns b))"
proof (induction "False" i w arbitrary: r w' rule: trap_signals_from.induct)
  case (1 i w)
  obtain x y where xy: "sys_sigaction (signal (sigpairs w i)) (if False then action (sigpairs w i) else SIG_DFL) w = (x, y)"
    by (cases "sys_sigaction (signal (sigpairs w i)) (if False then action (sigpairs w i) else SIG_DFL) w")
  have y: "\<exists>e. trace y = trace w @ [e] \<and> is_restore e"
    using xy by (auto simp: sys_sigaction_def Let_def split: if_splits)
  show ?case
  proof (cases "i < sigcount w \<and> 0 \<le> i \<and> i < 0xff \<and> \<not> x < 0")
    case True
    then have step: "trap_signals_from False (i + 1) y = (r, w')"
      using "1.prems" xy by (subst (asm) trap_signals_from.simps) simp
    from "1.hyps"[OF _ _ xy[symmetric] _ step] True
    obtain ss where ss: "trace w' = trace y @ ss" "\<forall>e\<in>set ss. is_restore e"
      and r: "r = Faults \<or> (\<exists>b. r = Returns b)" by auto
    from y obtain e where e: "trace y = trace w @ [e]" "is_restore e" by blast
    have "trace w' = trace w @ (e # ss) \<and> (\<forall>e\<in>set (e # ss). is_restore e)"
      using ss e by simp
    then show ?thesis using r by blast
  next
    case False
    then have "(r, w') = (Faults, w) \<or> (r, w') = (Returns True, w) \<or> (r, w') = (Returns False, y)"
      using "1.prems" xy
      by (subst (asm) trap_signals_from.simps) (auto split: if_splits)
    then show ?thesis using y by (elim disjE) (auto intro: exI[of _ "[]"])
  qed
qed

lemma kill_from_eq:
  "kill_from i w =
     (if i < jobs (options w) \<and> (i < 0 \<or> 0xff < jobs (options w)) then Faults else Returns (),
      w\<lparr>trace := trace w @
           (if i < 0 then []
            else map (\<lambda>j. Kill (children w j) SIGTERM) [i..min (jobs (options w)) 0xff - 1])\<rparr>)"
proof (induction i w rule: kill_from.induct)
  case (1 i w)
  show ?case
  proof (cases "i < jobs (options w) \<and> 0 \<le> i \<and> i < 0xff")
    case True
    let ?w1 = "sys_kill (children w i) SIGTERM w"
    have u: "[i..min (jobs (options w)) 0xff - 1] = i # [i + 1..min (jobs (options w)) 0xff - 1]"
      using True by (simp add: upto_rec1)
    have "kill_from i w = kill_from (i + 1) ?w1"
      using True by (subst kill_from.simps) simp
    also note "1.IH"
    finally show ?thesis using True by (auto simp: sys_kill_def emit_def u)
  next
    case False
    then show ?thesis
      by (subst kill_from.simps) (auto simp: upto_rec1)
  qed
qed

lemma reap_all_result:
  "reap_all w = (r, w') \<Longrightarrow>
     (r = Suspends \<or> r = Returns ()) \<and>
     children w' = children w \<and> n_fork w' = n_fork w \<and> disposition w' = disposition w \<and>
     (\<exists>ws. trace w' = trace w @ ws @ (if r = Returns () then [Wait (- 1)] else []) \<and>
           (\<forall>e\<in>set ws. is_reap e)) \<and>
     (r = Returns () \<longrightarrow> unreaped w' = [])"
proof (induction w arbitrary: r w' rule: reap_all.induct)
  case (1 w)
  obtain x y where xy: "sys_wait w = (x, y)" by (cases "sys_wait w")
  have fr: "children y = children w \<and> n_fork y = n_fork w \<and> disposition y = disposition w"
    using xy by (auto simp: sys_wait_def Let_def split: if_splits option.splits)
  consider (none) "x = Returns (- 1)" "unreaped w = []" "y = emit (Wait (- 1)) (w\<lparr>n_wait := Suc (n_wait w)\<rparr>)"
    | (block) "x = Suspends" "trace y = trace w"
    | (reap) q where "x = Returns (int q)" "trace y = trace w @ [Wait (int q)]"
    using xy by (auto simp: sys_wait_def Let_def split: if_splits option.splits)
  then show ?case
  proof cases
    case none
    then have "(r, w') = (Returns (), y)"
      using "1.prems" xy by (subst (asm) reap_all.simps) simp
    then show ?thesis using none fr by (auto intro: exI[of _ "[]"])
  next
    case block
    then have "(r, w') = (Suspends, y)"
      using "1.prems" xy by (subst (asm) reap_all.simps) simp
    then show ?thesis using block fr by (auto intro: exI[of _ "[]"])
  next
    case reap
    have ne: "int q \<noteq> - 1" by simp
    let ?y1 = "emit (Printf ''.'' []) y"
    have step: "reap_all ?y1 = (r, w')"
      using "1.prems" xy reap ne by (subst (asm) reap_all.simps) simp
    from "1.IH"[OF xy[symmetric] reap(1) ne step]
    obtain ws where r: "r = Suspends \<or> r = Returns ()"
      and f: "children w' = children ?y1" "n_fork w' = n_fork ?y1" "disposition w' = disposition ?y1"
      and t: "trace w' = trace ?y1 @ ws @ (if r = Returns () then [Wait (- 1)] else [])"
             "\<forall>e\<in>set ws. is_reap e"
      and u: "r = Returns () \<longrightarrow> unreaped w' = []" by auto
    have "trace w' = trace w @ (Wait (int q) # Printf ''.'' [] # ws) @ (if r = Returns () then [Wait (- 1)] else [])
          \<and> (\<forall>e\<in>set (Wait (int q) # Printf ''.'' [] # ws). is_reap e)"
      using t reap by simp
    then show ?thesis using r f u fr by (intro conjI) (simp, simp, simp, simp, blast, simp)
  qed
qed


lemma terminate_children_shape:
  assumes "terminate_children w = (r, w')"
  shows "(r = Faults \<or> r = Suspends \<or> r = Exits 0) \<and>
         n_fork w' = n_fork w \<and> children w' = children w \<and>
         (\<exists>ss ks ws.
            trace w' = trace w @
              Printf ''Termination signal received! Killing children'' [] # ss @ ks @ ws @
              (if r = Exits 0
               then [Wait (- 1), Printf ''\<newline>All children reaped, shutting down.\<newline>'' []]
               else []) \<and>
            (\<forall>e\<in>set ss. is_restore e) \<and> (\<forall>e\<in>set ks. is_kill e) \<and> (\<forall>e\<in>set ws. is_reap e)) \<and>
         (r = Exits 0 \<longrightarrow> unreaped w' = []) \<and>
         (sigcount w \<le> 0xff \<and> jobs (options w) \<le> 0xff \<longrightarrow> r \<noteq> Faults)"
proof -
  let ?w0 = "emit (Printf ''Termination signal received! Killing children'' []) w"
  obtain r1 w1 where t: "trap_signals_from False 0 ?w0 = (r1, w1)"
    by (cases "trap_signals_from False 0 ?w0")
  from restore_from_trace[OF t] obtain ss where
    ss: "trace w1 = trace ?w0 @ ss" "\<forall>e\<in>set ss. is_restore e"
    and r1: "r1 = Faults \<or> (\<exists>b. r1 = Returns b)" by blast
  note f1 = trap_signals_from_frame[OF t]
  show ?thesis
  proof (cases "r1 = Faults")
    case True
    then have "(r, w') = (Faults, w1)"
      using assms t by (simp add: terminate_children_def trap_signals_def)
    then have e: "r = Faults" "w' = w1" by simp_all
    have nb: "\<not> sigcount w \<le> 0xff"
    proof
      assume "sigcount w \<le> 0xff"
      then have "sigcount ?w0 \<le> 0xff" by simp
      from trap_signals_from_eq[OF order_refl this, of False] t True show False by simp
    qed
    have "\<exists>ss ks ws.
            trace w' = trace w @
              Printf ''Termination signal received! Killing children'' [] # ss @ ks @ ws @
              (if r = Exits 0
               then [Wait (- 1), Printf ''\<newline>All children reaped, shutting down.\<newline>'' []]
               else []) \<and>
            (\<forall>e\<in>set ss. is_restore e) \<and> (\<forall>e\<in>set ks. is_kill e) \<and> (\<forall>e\<in>set ws. is_reap e)"
      by (rule exI[of _ ss], rule exI[of _ "[]"], rule exI[of _ "[]"]) (simp add: e ss)
    then show ?thesis using e f1 nb by simp
  next
    case False
    with r1 obtain b where b: "r1 = Returns b" by blast
    obtain r2 w2 where k: "kill_from 0 w1 = (r2, w2)" by (cases "kill_from 0 w1")
    define ks where "ks = map (\<lambda>j. Kill (children w1 j) SIGTERM) [0..min (jobs (options w1)) 0xff - 1]"
    have w2: "w2 = w1\<lparr>trace := trace w1 @ ks\<rparr>" and r2: "r2 = Faults \<or> r2 = Returns ()"
      using k unfolding kill_from_eq ks_def by (auto split: if_splits)
    have kk: "\<forall>e\<in>set ks. is_kill e" by (auto simp: ks_def)
    show ?thesis
    proof (cases "r2 = Faults")
      case True
      then have "(r, w') = (Faults, w2)"
        using assms t b k by (simp add: terminate_children_def trap_signals_def)
      then have e: "r = Faults" "w' = w2" by simp_all
      have nb: "\<not> jobs (options w) \<le> 0xff"
        using k True f1 unfolding kill_from_eq by (auto split: if_splits)
      have "\<exists>ss ks ws.
            trace w' = trace w @
              Printf ''Termination signal received! Killing children'' [] # ss @ ks @ ws @
              (if r = Exits 0
               then [Wait (- 1), Printf ''\<newline>All children reaped, shutting down.\<newline>'' []]
               else []) \<and>
            (\<forall>e\<in>set ss. is_restore e) \<and> (\<forall>e\<in>set ks. is_kill e) \<and> (\<forall>e\<in>set ws. is_reap e)"
        by (rule exI[of _ ss], rule exI[of _ ks], rule exI[of _ "[]"]) (simp add: e ss w2 kk)
      then show ?thesis using e f1 w2 nb by simp
    next
      case False
      with r2 have r2': "r2 = Returns ()" by simp
      obtain r3 w3 where p: "reap_all w2 = (r3, w3)" by (cases "reap_all w2")
      from reap_all_result[OF p] obtain ws where
        r3: "r3 = Suspends \<or> r3 = Returns ()"
        and f3: "children w3 = children w2" "n_fork w3 = n_fork w2"
        and t3: "trace w3 = trace w2 @ ws @ (if r3 = Returns () then [Wait (- 1)] else [])"
                "\<forall>e\<in>set ws. is_reap e"
        and u3: "r3 = Returns () \<longrightarrow> unreaped w3 = []" by blast
      show ?thesis
      proof (cases "r3 = Suspends")
        case True
        then have "(r, w') = (Suspends, w3)"
          using assms t b k r2' p by (simp add: terminate_children_def trap_signals_def)
        then have e: "r = Suspends" "w' = w3" by simp_all
        have "\<exists>ss ks ws.
            trace w' = trace w @
              Printf ''Termination signal received! Killing children'' [] # ss @ ks @ ws @
              (if r = Exits 0
               then [Wait (- 1), Printf ''\<newline>All children reaped, shutting down.\<newline>'' []]
               else []) \<and>
            (\<forall>e\<in>set ss. is_restore e) \<and> (\<forall>e\<in>set ks. is_kill e) \<and> (\<forall>e\<in>set ws. is_reap e)"
          by (rule exI[of _ ss], rule exI[of _ ks], rule exI[of _ ws]) (simp add: e ss w2 kk t3 True)
        then show ?thesis using e f1 w2 f3 by simp
      next
        case False
        with r3 have r3': "r3 = Returns ()" by simp
        then have "(r, w') = (Exits 0,
            emit (Printf ''\<newline>All children reaped, shutting down.\<newline>'' []) w3)"
          using assms t b k r2' p by (simp add: terminate_children_def trap_signals_def)
        then have e: "r = Exits 0"
            "w' = emit (Printf ''\<newline>All children reaped, shutting down.\<newline>'' []) w3"
          by simp_all
        have "\<exists>ss ks ws.
            trace w' = trace w @
              Printf ''Termination signal received! Killing children'' [] # ss @ ks @ ws @
              (if r = Exits 0
               then [Wait (- 1), Printf ''\<newline>All children reaped, shutting down.\<newline>'' []]
               else []) \<and>
            (\<forall>e\<in>set ss. is_restore e) \<and> (\<forall>e\<in>set ks. is_kill e) \<and> (\<forall>e\<in>set ws. is_reap e)"
          by (rule exI[of _ ss], rule exI[of _ ks], rule exI[of _ ws]) (simp add: e ss w2 kk t3 r3')
        then show ?thesis using e f1 w2 f3 u3 r3' by simp
      qed
    qed
  qed
qed


text \<open>Two workers running: a shutdown, a shutdown whose first restoring call is rejected,
  and two passes around a respawn whose fork fails.\<close>

lemma asleep_default:
  assumes "fp 0 = In_parent" "fp 1 = In_parent" "\<forall>k. fp k \<noteq> In_child"
    "\<not> sr 0" "\<not> sr 1" "\<not> sr 2"
  shows "asleep [] fp sr he =
    \<lparr>options = \<lparr>jobs = 2, daemonize = False, logfile = strcpy (\<lambda>_. NUL) ''/dev/null''\<rparr>,
     sigcount = 3,
     sigpairs = (\<lambda>_. \<lparr>signal = 0, action = SIG_DFL\<rparr>)
                  (0 := \<lparr>signal = SIGCHLD, action = Restart_children\<rparr>,
                   1 := \<lparr>signal = SIGINT, action = Terminate_children\<rparr>,
                   2 := \<lparr>signal = SIGTERM, action = Terminate_children\<rparr>),
     children = (\<lambda>i. if 0 \<le> i \<and> i < 2 then 100 + i + 1 else 0),
     disposition = (\<lambda>_. SIG_DFL)(SIGCHLD := Restart_children, SIGINT := Terminate_children,
                                  SIGTERM := Terminate_children),
     unreaped = [101, 102],
     last_pid = 102,
     pgid = 100,
     fork_plan = fp,
     n_fork = 2,
     sigaction_rejects = sr,
     n_sigaction = 3,
     has_exited = he,
     n_wait = 0,
     draws = [],
     trace = [Fork 101, Printf ''Spawning child %d (pid %d)\<newline>'' [Num 0, Num 101],
              Fork 102, Printf ''Spawning child %d (pid %d)\<newline>'' [Num 1, Num 102],
              Sigaction SIGCHLD Restart_children 0, Sigaction SIGINT Terminate_children 0,
              Sigaction SIGTERM Terminate_children 0]\<rparr>"
proof -
  let ?w = "started [] fp sr he"
  note w = started_default[of fp sr he]
  have cap: "jobs (options ?w) \<le> 0xff" by (simp add: w)
  have sup: "\<forall>k. fork_plan ?w k \<noteq> In_child" using assms(3) by (simp add: w boot_def)
  have a: "spawned_ok ?w = 2" using assms(1,2)
    by (simp add: spawned_ok_def w boot_def eval_nat_numeral)
  have b: "installed_ok ?w = 3" using assms(4-6)
    by (simp add: installed_ok_def w boot_def eval_nat_numeral)
  show ?thesis
    unfolding asleep_def master_eq[OF cap sup] a b
    by (simp add: w boot_def register_signals_def handlers_def switch_all_def spawning_def
          sigaction_events_def upt_rec fun_eq_iff)
qed

lemma shutdown_default:
  "terminate_children (asleep [] (\<lambda>_. In_parent) (\<lambda>_. False) (\<lambda>_ _. True)) =
    (Exits 0,
     (asleep [] (\<lambda>_. In_parent) (\<lambda>_. False) (\<lambda>_ _. True))
     \<lparr>disposition := (\<lambda>_. SIG_DFL), unreaped := [], n_sigaction := 6, n_wait := 3,
      trace := trace (asleep [] (\<lambda>_. In_parent) (\<lambda>_. False) (\<lambda>_ _. True)) @
        [Printf ''Termination signal received! Killing children'' [],
         Sigaction SIGCHLD SIG_DFL 0, Sigaction SIGINT SIG_DFL 0, Sigaction SIGTERM SIG_DFL 0,
         Kill 101 SIGTERM, Kill 102 SIGTERM,
         Wait 101, Printf ''.'' [], Wait 102, Printf ''.'' [], Wait (- 1),
         Printf ''\<newline>All children reaped, shutting down.\<newline>'' []]\<rparr>)"
  by (simp add: asleep_default terminate_children_def trap_signals_def trap_signals_from.simps
        sys_sigaction_def kill_from.simps sys_kill_def reap_all.simps sys_wait_def Let_def
        emit_def fun_eq_iff SIGCHLD_def SIGINT_def SIGTERM_def)

lemma shutdown_restore_rejected:
  "terminate_children (asleep [] (\<lambda>_. In_parent) (\<lambda>k. k = 3) (\<lambda>_ _. True)) =
    (Exits 0,
     (asleep [] (\<lambda>_. In_parent) (\<lambda>k. k = 3) (\<lambda>_ _. True))
     \<lparr>unreaped := [], n_sigaction := 4, n_wait := 3,
      trace := trace (asleep [] (\<lambda>_. In_parent) (\<lambda>k. k = 3) (\<lambda>_ _. True)) @
        [Printf ''Termination signal received! Killing children'' [],
         Sigaction SIGCHLD SIG_DFL (- 1),
         Kill 101 SIGTERM, Kill 102 SIGTERM,
         Wait 101, Printf ''.'' [], Wait 102, Printf ''.'' [], Wait (- 1),
         Printf ''\<newline>All children reaped, shutting down.\<newline>'' []]\<rparr>)"
  by (simp add: asleep_default terminate_children_def trap_signals_def trap_signals_from.simps
        sys_sigaction_def kill_from.simps sys_kill_def reap_all.simps sys_wait_def Let_def
        emit_def fun_eq_iff SIGCHLD_def SIGINT_def SIGTERM_def)


lemma pass_fork_fails:
  "restart_children (asleep [] (\<lambda>k. if k = 2 then Fork_fails else In_parent) (\<lambda>_. False) (\<lambda>_ q. q = 101)) =
    (Returns (),
     (asleep [] (\<lambda>k. if k = 2 then Fork_fails else In_parent) (\<lambda>_. False) (\<lambda>_ q. q = 101))
     \<lparr>unreaped := [102], n_fork := 3, n_wait := 2,
      trace := trace (asleep [] (\<lambda>k. if k = 2 then Fork_fails else In_parent) (\<lambda>_. False) (\<lambda>_ q. q = 101)) @
        [Waitpid 101 101, Printf ''Master: reaped dead child %d (pid %d)\<newline>'' [Num 0, Num 101],
         Fork (- 1), Waitpid 102 0]\<rparr>)"
  by (simp add: asleep_default restart_children_def restart_children_from.simps restart_slot_pos
        child_fork_fails fun_eq_iff)

lemma pass_after_fork_failed:
  "restart_children
     ((asleep [] (\<lambda>k. if k = 2 then Fork_fails else In_parent) (\<lambda>_. False) (\<lambda>_ q. q = 101))
      \<lparr>unreaped := [102], n_fork := 3, n_wait := 2,
       trace := trace (asleep [] (\<lambda>k. if k = 2 then Fork_fails else In_parent) (\<lambda>_. False) (\<lambda>_ q. q = 101)) @
        [Waitpid 101 101, Printf ''Master: reaped dead child %d (pid %d)\<newline>'' [Num 0, Num 101],
         Fork (- 1), Waitpid 102 0]\<rparr>) =
    (Returns (),
     (asleep [] (\<lambda>k. if k = 2 then Fork_fails else In_parent) (\<lambda>_. False) (\<lambda>_ q. q = 101))
     \<lparr>unreaped := [102], n_fork := 3, n_wait := 4,
      trace := trace (asleep [] (\<lambda>k. if k = 2 then Fork_fails else In_parent) (\<lambda>_. False) (\<lambda>_ q. q = 101)) @
        [Waitpid 101 101, Printf ''Master: reaped dead child %d (pid %d)\<newline>'' [Num 0, Num 101],
         Fork (- 1), Waitpid 102 0,
         Waitpid 101 (- 1), Perror ''waitpid()'', Waitpid 102 0]\<rparr>)"
  by (simp add: asleep_default restart_children_def restart_children_from.simps restart_slot_pos
        fun_eq_iff)


text \<open>The table is in order after start-up, and a pass keeps it so.\<close>

lemma table_ok_update:
  assumes "table_ok v" "0 \<le> i" "i < jobs (options v)"
    "options v' = options v" "last_pid v' = Suc (last_pid v)"
    "children v' = (children v)(i := int (Suc (last_pid v)))"
  shows "table_ok v'"
proof -
  have b: "\<And>j. 0 \<le> j \<Longrightarrow> j < jobs (options v) \<Longrightarrow> 0 < children v j \<and> children v j \<le> int (last_pid v)"
    and inj: "inj_on (children v) {0..<jobs (options v)}"
    using assms(1) by (auto simp: table_ok_def)
  have "inj_on (children v') {0..<jobs (options v')}"
    unfolding inj_on_def
  proof (intro ballI impI)
    fix x y
    assume x: "x \<in> {0..<jobs (options v')}" and y: "y \<in> {0..<jobs (options v')}"
      and e: "children v' x = children v' y"
    show "x = y"
    proof (cases "x = i \<or> y = i")
      case False
      then have "children v x = children v y" using e assms(6) by simp
      from inj_onD[OF inj this] x y assms(4) show ?thesis by simp
    next
      case True
      show ?thesis
      proof (rule ccontr)
        assume ne: "x \<noteq> y"
        with True consider "x = i" "y \<noteq> i" | "y = i" "x \<noteq> i" by auto
        then show False
        proof cases
          case 1
          then have "children v y = int (Suc (last_pid v))" using e assms(6) by simp
          moreover have "children v y \<le> int (last_pid v)" using b[of y] y assms(4) by simp
          ultimately show False by simp
        next
          case 2
          then have "children v x = int (Suc (last_pid v))" using e assms(6) by simp
          moreover have "children v x \<le> int (last_pid v)" using b[of x] x assms(4) by simp
          ultimately show False by simp
        qed
      qed
    qed
  qed
  moreover have "0 < children v' j \<and> children v' j \<le> int (last_pid v')"
    if "0 \<le> j" "j < jobs (options v')" for j
    using that b[of j] assms(4-6) by auto
  ultimately show ?thesis by (simp add: table_ok_def)
qed

lemma table_ok_same:
  assumes "table_ok v" "options v' = options v" "last_pid v \<le> last_pid v'"
    "children v' = children v"
  shows "table_ok v'"
  using assms by (fastforce simp: table_ok_def)

lemma table_ok_restart_slot:
  assumes "table_ok v" "0 \<le> i" "i < 0xff" "i < jobs (options v)"
    "\<forall>k. fork_plan v k \<noteq> In_child"
  shows "table_ok (snd (restart_slot i v))"
proof -
  have pos: "0 < children v i" using assms(1,2,4) by (simp add: table_ok_def)
  let ?v2 = "v\<lparr>n_wait := Suc (n_wait v), unreaped := remove1 (nat (children v i)) (unreaped v),
                trace := trace v @ [Waitpid (children v i) (children v i),
                  Printf ''Master: reaped dead child %d (pid %d)\<newline>''
                    [Num i, Num (children v i)]]\<rparr>"
  have fp: "fork_plan ?v2 (n_fork ?v2) \<noteq> In_child" using assms(5) by simp
  from child_supervisor[OF fp assms(2,3)] obtain q where
    q: "0 < q \<longrightarrow> q = int (Suc (last_pid ?v2))" and
    c: "child i ?v2 =
     (Returns (0 < q),
      if 0 < q
      then ?v2\<lparr>n_fork := Suc (n_fork ?v2), last_pid := Suc (last_pid ?v2),
             unreaped := unreaped ?v2 @ [Suc (last_pid ?v2)],
             children := (children ?v2)(i := q),
             trace := trace ?v2 @ [Fork q, Printf ''Spawning child %d (pid %d)\<newline>'' [Num i, Num q]]\<rparr>
      else ?v2\<lparr>n_fork := Suc (n_fork ?v2), trace := trace ?v2 @ [Fork q]\<rparr>)" by blast
  show ?thesis
  proof (cases "nat (children v i) \<in> set (unreaped v) \<and> has_exited v (n_wait v) (nat (children v i)) \<and> 0 < q")
    case True
    show ?thesis
      using True q
      by (intro table_ok_update[OF assms(1,2,4)])
         (simp_all add: restart_slot_pos[OF assms(2,3) pos] c)
  next
    case False
    show ?thesis
      using False
      by (intro table_ok_same[OF assms(1)])
         (auto simp: restart_slot_pos[OF assms(2,3) pos] c)
  qed
qed

lemma table_ok_pass_upto:
  assumes "table_ok w" "jobs (options w) \<le> 0xff" "\<forall>k. fork_plan w k \<noteq> In_child"
    "k \<le> nat (jobs (options w))"
  shows "table_ok (pass_upto k w)"
  using assms(4)
proof (induction k)
  case 0
  then show ?case using assms(1) by simp
next
  case (Suc k)
  let ?v = "pass_upto k w"
  have t: "table_ok ?v" using Suc by simp
  have f: "options ?v = options w" "fork_plan ?v = fork_plan w"
    using pass_upto_frame[of k w] by simp_all
  have rng: "0 \<le> int k" "int k < 0xff" "int k < jobs (options ?v)"
    using Suc.prems assms(2) f by simp_all
  have sup: "\<forall>j. fork_plan ?v j \<noteq> In_child" using assms(3) f by simp
  show ?case using table_ok_restart_slot[OF t rng sup] by simp
qed

lemma table_ok_restart_children:
  assumes "table_ok w" "jobs (options w) \<le> 0xff" "\<forall>k. fork_plan w k \<noteq> In_child"
  shows "table_ok (snd (restart_children w))"
  unfolding restart_children_eq[OF assms(2,3)] snd_conv
  by (rule table_ok_pass_upto[OF assms order_refl])

lemma table_ok_master:
  assumes "jobs (options w) \<le> 0xff" "\<forall>k. fork_plan w k \<noteq> In_child"
    "fst (master w) = Suspends"
  shows "table_ok (snd (master w))"
proof -
  have a: "spawned_ok w = nat (jobs (options w))"
    using assms(3) unfolding master_eq[OF assms(1,2)] by (simp split: if_splits)
  have "\<not> spawned_ok w < nat (jobs (options w))" using a by simp
  then show ?thesis
    unfolding master_eq[OF assms(1,2)] snd_conv
    by (auto simp: table_ok_def a inj_on_def)
qed

section \<open>Parsing the options\<close>

text \<open>
  Claim C10. Without options \<open>optparse\<close> leaves \<open>jobs = 2\<close>, \<open>daemonize = false\<close> and the
  log file \<open>"/dev/null"\<close>. After any options that were parsed without an exit, one more
  \<open>-d\<close> changes only \<open>daemonize\<close>, one more \<open>-f FILE\<close> only \<open>logfile\<close> (the \<open>strncpy\<close> of
  its argument, which reads back as \<open>FILE\<close> when that is shorter than the buffer), and
  one more \<open>-j JOBS\<close> only \<open>jobs\<close> (the \<open>atoi\<close> of its argument).
\<close>

theorem optparse_defaults_and_overrides:
  "optparse argv0 [] w =
     (Returns (), w\<lparr>options := \<lparr>jobs = 2, daemonize = False,
                                 logfile = strcpy (logfile (options w)) ''/dev/null''\<rparr>\<rparr>) \<and>
   c_str 0xff (logfile (options (snd (optparse argv0 [] w)))) = Some ''/dev/null'' \<and>
   (optparse argv0 gs w = (Returns (), w1) \<longrightarrow>
      optparse argv0 (gs @ [(CHR ''d'', a)]) w =
        (Returns (), w1\<lparr>options := (options w1)\<lparr>daemonize := True\<rparr>\<rparr>) \<and>
      optparse argv0 (gs @ [(CHR ''f'', a)]) w =
        (Returns (), w1\<lparr>options := (options w1)\<lparr>logfile := strncpy (logfile (options w1)) a 0xff\<rparr>\<rparr>) \<and>
      (NUL \<notin> set a \<and> length a < 0xff \<longrightarrow>
         c_str 0xff (logfile (options (snd (optparse argv0 (gs @ [(CHR ''f'', a)]) w)))) = Some a) \<and>
      (\<forall>n. atoi a = Some n \<longrightarrow>
         optparse argv0 (gs @ [(CHR ''j'', a)]) w =
           (Returns (), w1\<lparr>options := (options w1)\<lparr>jobs := n\<rparr>\<rparr>)))"
proof -
  have nul: "NUL \<notin> set ''/dev/null''" by (simp add: NUL_def)
  have "c_str 0xff (strcpy (logfile (options w)) ''/dev/null'') = Some ''/dev/null''"
    by (rule c_str_strcpy[OF nul]) simp
  then show ?thesis
    by (auto simp: optparse_def optparse_loop_snoc c_str_strncpy)
qed

theorem optparse_defaults_and_overrides_witness:
  "options (snd (optparse ''forking-daemon'' [] (boot (\<lambda>_. In_parent) (\<lambda>_. False) (\<lambda>_ _. False) [])))
     = \<lparr>jobs = 2, daemonize = False, logfile = strcpy (\<lambda>_. NUL) ''/dev/null''\<rparr> \<and>
   options (snd (optparse ''forking-daemon'' [(CHR ''d'', [])]
                   (boot (\<lambda>_. In_parent) (\<lambda>_. False) (\<lambda>_ _. False) [])))
     = \<lparr>jobs = 2, daemonize = True, logfile = strcpy (\<lambda>_. NUL) ''/dev/null''\<rparr> \<and>
   options (snd (optparse ''forking-daemon'' [(CHR ''f'', ''/tmp/log'')]
                   (boot (\<lambda>_. In_parent) (\<lambda>_. False) (\<lambda>_ _. False) [])))
     = \<lparr>jobs = 2, daemonize = False,
        logfile = strncpy (strcpy (\<lambda>_. NUL) ''/dev/null'') ''/tmp/log'' 0xff\<rparr> \<and>
   options (snd (optparse ''forking-daemon'' [(CHR ''j'', ''7'')]
                   (boot (\<lambda>_. In_parent) (\<lambda>_. False) (\<lambda>_ _. False) [])))
     = \<lparr>jobs = 7, daemonize = False, logfile = strcpy (\<lambda>_. NUL) ''/dev/null''\<rparr>"
  using optparse_defaults_and_overrides
          [of "''forking-daemon''" "boot (\<lambda>_. In_parent) (\<lambda>_. False) (\<lambda>_ _. False) []" "[]"
              "(boot (\<lambda>_. In_parent) (\<lambda>_. False) (\<lambda>_ _. False) [])
                 \<lparr>options := \<lparr>jobs = 2, daemonize = False,
                               logfile = strcpy (\<lambda>_. NUL) ''/dev/null''\<rparr>\<rparr>" "[]"]
        optparse_defaults_and_overrides
          [of "''forking-daemon''" "boot (\<lambda>_. In_parent) (\<lambda>_. False) (\<lambda>_ _. False) []" "[]"
              "(boot (\<lambda>_. In_parent) (\<lambda>_. False) (\<lambda>_ _. False) [])
                 \<lparr>options := \<lparr>jobs = 2, daemonize = False,
                               logfile = strcpy (\<lambda>_. NUL) ''/dev/null''\<rparr>\<rparr>" "''/tmp/log''"]
        optparse_defaults_and_overrides
          [of "''forking-daemon''" "boot (\<lambda>_. In_parent) (\<lambda>_. False) (\<lambda>_ _. False) []" "[]"
              "(boot (\<lambda>_. In_parent) (\<lambda>_. False) (\<lambda>_ _. False) [])
                 \<lparr>options := \<lparr>jobs = 2, daemonize = False,
                               logfile = strcpy (\<lambda>_. NUL) ''/dev/null''\<rparr>\<rparr>" "''7''"]
  by (simp add: boot_def atoi_def isspace_def isdigit_def)

section \<open>Spawning one worker\<close>

text \<open>
  Claim C8. \<open>child(id)\<close> in the parent: when \<open>fork\<close> fails it returns \<open>false\<close> and the
  table of children is as before; when \<open>fork\<close> succeeds, for a slot \<open>id\<close> of the table,
  it returns \<open>true\<close>, the slot holds the new pid and no other slot changes, and the new
  process is among the children of the caller.
\<close>

theorem child_records_pid_or_leaves_slot:
  "(fork_plan w (n_fork w) = Fork_fails \<longrightarrow>
      fst (child ident w) = Returns False \<and>
      children (snd (child ident w)) = children w \<and>
      unreaped (snd (child ident w)) = unreaped w) \<and>
   (fork_plan w (n_fork w) = In_parent \<and> 0 \<le> ident \<and> ident < 0xff \<longrightarrow>
      fst (child ident w) = Returns True \<and>
      children (snd (child ident w)) = (children w)(ident := int (Suc (last_pid w))) \<and>
      unreaped (snd (child ident w)) = unreaped w @ [Suc (last_pid w)])"
  by (simp add: child_def sys_fork_def Let_def)

theorem child_records_pid_or_leaves_slot_witness:
  "fst (child 0 (boot (\<lambda>_. Fork_fails) (\<lambda>_. False) (\<lambda>_ _. False) [])) = Returns False \<and>
   children (snd (child 0 (boot (\<lambda>_. Fork_fails) (\<lambda>_. False) (\<lambda>_ _. False) []))) 0 = 0 \<and>
   fst (child 3 (boot (\<lambda>_. In_parent) (\<lambda>_. False) (\<lambda>_ _. False) [])) = Returns True \<and>
   children (snd (child 3 (boot (\<lambda>_. In_parent) (\<lambda>_. False) (\<lambda>_ _. False) []))) 3 = 101 \<and>
   children (snd (child 3 (boot (\<lambda>_. In_parent) (\<lambda>_. False) (\<lambda>_ _. False) []))) 2 = 0 \<and>
   unreaped (snd (child 3 (boot (\<lambda>_. In_parent) (\<lambda>_. False) (\<lambda>_ _. False) []))) = [101]"
  using child_records_pid_or_leaves_slot
          [of "boot (\<lambda>_. Fork_fails) (\<lambda>_. False) (\<lambda>_ _. False) []" 0]
        child_records_pid_or_leaves_slot
          [of "boot (\<lambda>_. In_parent) (\<lambda>_. False) (\<lambda>_ _. False) []" 3]
  by (simp add: boot_def)

section \<open>Installing and restoring the signal bindings\<close>

text \<open>
  Claim C4, as amended. \<open>trap_signals\<close> returns false exactly when the kernel rejects one
  of the \<open>sigcount\<close> bindings, and it stops there without undoing anything: the bindings
  before the first rejected one have been switched, in order, and stay switched; the
  rejected one and those after it are as they were, and no further call of sigaction is
  made. Every binding is switched only when none is rejected. Nothing else of the
  state changes.
\<close>

theorem trap_signals_switches_until_rejected:
  assumes "sigcount w \<le> 0xff"
  shows "trap_signals on w =
     (Returns (accepted_calls (sigaction_rejects w) (n_sigaction w) (length (bindings on w 0))
                = length (bindings on w 0)),
      w\<lparr>n_sigaction := n_sigaction w +
           min (Suc (accepted_calls (sigaction_rejects w) (n_sigaction w) (length (bindings on w 0))))
               (length (bindings on w 0)),
        disposition :=
          switch_all (take (accepted_calls (sigaction_rejects w) (n_sigaction w)
                              (length (bindings on w 0))) (bindings on w 0)) (disposition w),
        trace := trace w @
          sigaction_events (bindings on w 0)
            (accepted_calls (sigaction_rejects w) (n_sigaction w) (length (bindings on w 0)))\<rparr>)"
  unfolding trap_signals_def using trap_signals_from_eq[OF _ assms, of 0 on] by simp

theorem trap_signals_switches_until_rejected_witness:
  "sigcount (register_signals (boot (\<lambda>_. In_parent) (\<lambda>k. k = 2) (\<lambda>_ _. False) [])) \<le> 0xff \<and>
   fst (trap_signals True (register_signals (boot (\<lambda>_. In_parent) (\<lambda>k. k = 2) (\<lambda>_ _. False) []))) = Returns False \<and>
   disposition (snd (trap_signals True (register_signals (boot (\<lambda>_. In_parent) (\<lambda>k. k = 2) (\<lambda>_ _. False) []))))
     = (\<lambda>s. if s = SIGINT then Terminate_children else if s = SIGCHLD then Restart_children else SIG_DFL) \<and>
   trace (snd (trap_signals True (register_signals (boot (\<lambda>_. In_parent) (\<lambda>k. k = 2) (\<lambda>_ _. False) []))))
     = [Sigaction SIGCHLD Restart_children 0, Sigaction SIGINT Terminate_children 0,
        Sigaction SIGTERM Terminate_children (- 1)]"
  using trap_signals_switches_until_rejected
          [of "register_signals (boot (\<lambda>_. In_parent) (\<lambda>k. k = 2) (\<lambda>_ _. False) [])" True]
  by (simp add: register_signals_def boot_def bindings_def switch_all_def upto_eval
        sigaction_events_def SIGCHLD_def SIGINT_def SIGTERM_def fun_eq_iff)

text \<open>
  Claim C4 as stated fails: with the three signals registered and the second call of
  sigaction rejected, the installation returns false, and SIGCHLD is switched to its
  handler while SIGINT and SIGTERM are not.
\<close>

theorem trap_signals_partial_installation:
  "fst (trap_signals True (register_signals (boot (\<lambda>_. In_parent) (\<lambda>k. k = 1) (\<lambda>_ _. False) []))) = Returns False \<and>
   disposition (snd (trap_signals True (register_signals (boot (\<lambda>_. In_parent) (\<lambda>k. k = 1) (\<lambda>_ _. False) [])))) SIGCHLD = Restart_children \<and>
   disposition (snd (trap_signals True (register_signals (boot (\<lambda>_. In_parent) (\<lambda>k. k = 1) (\<lambda>_ _. False) [])))) SIGINT = SIG_DFL \<and>
   disposition (snd (trap_signals True (register_signals (boot (\<lambda>_. In_parent) (\<lambda>k. k = 1) (\<lambda>_ _. False) [])))) SIGTERM = SIG_DFL"
  by (simp add: trap_signals_def trap_signals_from.simps register_signals_def boot_def
        sys_sigaction_def Let_def SIGCHLD_def SIGINT_def SIGTERM_def)

section \<open>Starting up\<close>

text \<open>
  Claim C3. In the supervisor, for a job count the table can hold: \<open>master\<close> spawns the
  workers for the slots \<open>0, 1, ...\<close> in this order (the \<open>j\<close>-th spawn prints slot \<open>j\<close> and
  stores the \<open>j\<close>-th new pid in \<open>children[j]\<close>) and stops at the first fork that fails.
  The calls of sigaction come only when all \<open>options.jobs\<close> spawns have succeeded, after
  them. The process goes to sleep, with the handlers installed, exactly when every spawn
  succeeded and every installation was accepted; in every other case \<open>master\<close> returns 1,
  which \<open>main\<close> returns as the exit status.
\<close>

theorem master_spawns_then_installs_or_aborts:
  assumes "jobs (options w) \<le> 0xff" and "\<forall>k. fork_plan w k \<noteq> In_child"
  shows
    "fst (master w) =
       (if spawned_ok w = nat (jobs (options w)) \<and> installed_ok w = 3 then Suspends
        else Returns 1) \<and>
     trace (snd (master w)) =
       trace w @ spawning (last_pid w) (spawned_ok w) @
       (if spawned_ok w < nat (jobs (options w))
        then [Fork (- 1), Stderr ''child() failed!\<newline>'' []]
        else sigaction_events handlers (installed_ok w) @
             (if installed_ok w = 3 then [] else [Stderr ''trap_signals() failed!\<newline>'' []])) \<and>
     children (snd (master w)) =
       (\<lambda>i. if 0 \<le> i \<and> i < int (spawned_ok w) then int (last_pid w) + i + 1 else children w i) \<and>
     disposition (snd (master w)) =
       (if spawned_ok w < nat (jobs (options w)) then disposition w
        else switch_all (take (installed_ok w) handlers) (disposition w))"
  unfolding master_eq[OF assms] by simp

theorem master_spawns_then_installs_or_aborts_witness:
  "jobs (options (started [] (\<lambda>_. In_parent) (\<lambda>_. False) (\<lambda>_ _. False))) \<le> 0xff \<and>
   fst (master (started [] (\<lambda>_. In_parent) (\<lambda>_. False) (\<lambda>_ _. False))) = Suspends \<and>
   trace (snd (master (started [] (\<lambda>_. In_parent) (\<lambda>_. False) (\<lambda>_ _. False)))) =
     [Fork 101, Printf ''Spawning child %d (pid %d)\<newline>'' [Num 0, Num 101],
      Fork 102, Printf ''Spawning child %d (pid %d)\<newline>'' [Num 1, Num 102],
      Sigaction SIGCHLD Restart_children 0, Sigaction SIGINT Terminate_children 0,
      Sigaction SIGTERM Terminate_children 0] \<and>
   fst (master (started [] (\<lambda>k. if k = 1 then Fork_fails else In_parent) (\<lambda>_. False) (\<lambda>_ _. False)))
     = Returns 1 \<and>
   trace (snd (master (started [] (\<lambda>k. if k = 1 then Fork_fails else In_parent) (\<lambda>_. False) (\<lambda>_ _. False)))) =
     [Fork 101, Printf ''Spawning child %d (pid %d)\<newline>'' [Num 0, Num 101],
      Fork (- 1), Stderr ''child() failed!\<newline>'' []] \<and>
   fst (master (started [] (\<lambda>_. In_parent) (\<lambda>k. k = 0) (\<lambda>_ _. False))) = Returns 1"
  using master_spawns_then_installs_or_aborts
          [of "started [] (\<lambda>_. In_parent) (\<lambda>_. False) (\<lambda>_ _. False)"]
        master_spawns_then_installs_or_aborts
          [of "started [] (\<lambda>k. if k = 1 then Fork_fails else In_parent) (\<lambda>_. False) (\<lambda>_ _. False)"]
        master_spawns_then_installs_or_aborts
          [of "started [] (\<lambda>_. In_parent) (\<lambda>k. k = 0) (\<lambda>_ _. False)"]
  by (simp add: started_default boot_def spawned_ok_def installed_ok_def handlers_def
        spawning_def sigaction_events_def eval_nat_numeral)

section \<open>A job count above the capacity of the table\<close>

text \<open>
  Claim C5, as amended. A job count above 255, such as 256, is not rejected: \<open>optparse\<close>
  stores the value \<open>atoi\<close> reads, unchanged (``no argument checking''), and returns. When
  the forks succeed, \<open>master\<close> then spawns 256 workers: the first 255 fill the slots
  \<open>0..254\<close>, and the 256th is forked, announced for slot 255, and its pid is written to
  \<open>children[255]\<close>, outside the array of \<open>0xff\<close> entries.
\<close>

theorem jobs_above_capacity_not_rejected:
  assumes "atoi a = Some n" and "0xff < n"
    and "\<forall>j<256. fork_plan w (n_fork w + j) = In_parent"
  shows
    "fst (optparse argv0 [(CHR ''j'', a)] w) = Returns () \<and>
     jobs (options (snd (optparse argv0 [(CHR ''j'', a)] w))) = n \<and>
     fst (master (snd (optparse argv0 [(CHR ''j'', a)] w))) = Faults \<and>
     n_fork (snd (master (snd (optparse argv0 [(CHR ''j'', a)] w)))) = n_fork w + 256 \<and>
     trace (snd (master (snd (optparse argv0 [(CHR ''j'', a)] w)))) =
       trace w @ spawning (last_pid w) 256 \<and>
     children (snd (master (snd (optparse argv0 [(CHR ''j'', a)] w)))) =
       (\<lambda>i. if 0 \<le> i \<and> i < 255 then int (last_pid w) + i + 1 else children w i)"
proof -
  let ?w1 = "w\<lparr>options := \<lparr>jobs = n, daemonize = False,
                              logfile = strcpy (logfile (options w)) ''/dev/null''\<rparr>\<rparr>"
  have j: "0xff < jobs (options ?w1)" using assms(2) by simp
  have f: "\<forall>j<256. fork_plan ?w1 (n_fork ?w1 + j) = In_parent" using assms(3) by simp
  show ?thesis
    unfolding optparse_jobs[OF assms(1)] snd_conv fst_conv master_overflow[OF j f]
    by (simp cong: if_cong)
qed

theorem jobs_above_capacity_not_rejected_witness:
  "atoi ''256'' = Some 256 \<and>
   fst (optparse ''forking-daemon'' [(CHR ''j'', ''256'')]
          (boot (\<lambda>_. In_parent) (\<lambda>_. False) (\<lambda>_ _. False) [])) = Returns () \<and>
   jobs (options (snd (optparse ''forking-daemon'' [(CHR ''j'', ''256'')]
          (boot (\<lambda>_. In_parent) (\<lambda>_. False) (\<lambda>_ _. False) [])))) = 256 \<and>
   fst (master (snd (optparse ''forking-daemon'' [(CHR ''j'', ''256'')]
          (boot (\<lambda>_. In_parent) (\<lambda>_. False) (\<lambda>_ _. False) [])))) = Faults \<and>
   n_fork (snd (master (snd (optparse ''forking-daemon'' [(CHR ''j'', ''256'')]
          (boot (\<lambda>_. In_parent) (\<lambda>_. False) (\<lambda>_ _. False) []))))) = 256"
  using jobs_above_capacity_not_rejected
          [of "''256''" 256 "boot (\<lambda>_. In_parent) (\<lambda>_. False) (\<lambda>_ _. False) []" "''forking-daemon''"]
  by (simp add: atoi_256) (simp add: boot_def)

text \<open>
  Claim C5 as stated fails: with \<open>-j 256\<close> the options are parsed without an exit, the
  job count is 256, and the start-up ends in the write outside the table after 256
  workers were forked.
\<close>

theorem jobs_256_accepted_then_table_overrun:
  "fst (optparse ''forking-daemon'' [(CHR ''j'', ''256'')]
          (boot (\<lambda>_. In_parent) (\<lambda>_. False) (\<lambda>_ _. False) [])) = Returns () \<and>
   jobs (options (started [(CHR ''j'', ''256'')] (\<lambda>_. In_parent) (\<lambda>_. False) (\<lambda>_ _. False))) = 256 \<and>
   fst (master (started [(CHR ''j'', ''256'')] (\<lambda>_. In_parent) (\<lambda>_. False) (\<lambda>_ _. False))) = Faults \<and>
   length (unreaped (snd (master (started [(CHR ''j'', ''256'')] (\<lambda>_. In_parent) (\<lambda>_. False) (\<lambda>_ _. False)))))
     = 256"
proof -
  let ?w1 = "started [(CHR ''j'', ''256'')] (\<lambda>_. In_parent) (\<lambda>_. False) (\<lambda>_ _. False)"
  have w1: "?w1 = (boot (\<lambda>_. In_parent) (\<lambda>_. False) (\<lambda>_ _. False) [])
                    \<lparr>options := \<lparr>jobs = 256, daemonize = False,
                                  logfile = strcpy (\<lambda>_. NUL) ''/dev/null''\<rparr>\<rparr>"
    unfolding started_def optparse_jobs[OF atoi_256] by (simp add: boot_def)
  have j: "0xff < jobs (options ?w1)" by (simp add: w1)
  have f: "\<forall>j<256. fork_plan ?w1 (n_fork ?w1 + j) = In_parent" by (simp add: w1 boot_def)
  show ?thesis
    unfolding master_overflow[OF j f] optparse_jobs[OF atoi_256]
    by (simp add: w1) (simp add: boot_def)
qed

section \<open>One pass of the child-exit handler\<close>

text \<open>
  Claim C2. A pass of \<open>restart_children\<close> (in the supervisor, for a job count the table
  can hold) returns, and its events are one block per slot \<open>0..jobs-1\<close>, in order: each
  block is exactly one \<open>waitpid(children[i], WNOHANG)\<close>; nothing more when it returns \<open>0\<close>;
  \<open>perror\<close> when it fails; and, when it returns a pid, the message and one \<open>fork\<close> for that
  slot, whose pid is recorded in the slot when it succeeds. Consequently, when forks
  succeed and the table is in order (as it is after start-up and after every pass),
  every slot whose worker has exited when the slot is polled (in particular: every one of
  \<open>K\<close> workers that exited before the pass began) ends the same pass with a new pid that
  is a child of the supervisor, however many notifications were delivered.
\<close>

theorem restart_children_polls_every_slot_once:
  assumes "jobs (options w) \<le> 0xff" and "\<forall>k. fork_plan w k \<noteq> In_child"
  shows
    "fst (restart_children w) = Returns () \<and>
     (\<exists>rs qs. length rs = nat (jobs (options w)) \<and> length qs = nat (jobs (options w)) \<and>
        added w (snd (restart_children w)) =
          concat (map (\<lambda>j. slot_events (int j) (children w (int j)) (rs ! j) (qs ! j))
                    [0..<nat (jobs (options w))]) \<and>
        children (snd (restart_children w)) =
          (\<lambda>i. if 0 \<le> i \<and> i < jobs (options w) \<and> 0 < rs ! nat i \<and> 0 < qs ! nat i
               then qs ! nat i else children w i)) \<and>
     ((\<forall>k. fork_plan w k = In_parent) \<and> table_ok w \<longrightarrow>
      (\<forall>j. 0 \<le> j \<and> j < jobs (options w) \<and> nat (children w j) \<in> set (unreaped w) \<and>
            has_exited w (n_wait w + nat j) (nat (children w j)) \<longrightarrow>
            int (last_pid w) < children (snd (restart_children w)) j \<and>
            nat (children (snd (restart_children w)) j) \<in> set (unreaped (snd (restart_children w)))))"
proof (intro conjI impI)
  show "fst (restart_children w) = Returns ()"
    by (simp add: restart_children_eq[OF assms])
next
  show "\<exists>rs qs. length rs = nat (jobs (options w)) \<and> length qs = nat (jobs (options w)) \<and>
        added w (snd (restart_children w)) =
          concat (map (\<lambda>j. slot_events (int j) (children w (int j)) (rs ! j) (qs ! j))
                    [0..<nat (jobs (options w))]) \<and>
        children (snd (restart_children w)) =
          (\<lambda>i. if 0 \<le> i \<and> i < jobs (options w) \<and> 0 < rs ! nat i \<and> 0 < qs ! nat i
               then qs ! nat i else children w i)"
    using restart_children_blocks[OF assms] by blast
next
  assume h: "(\<forall>k. fork_plan w k = In_parent) \<and> table_ok w"
  then have fp: "\<forall>k. fork_plan w k = In_parent"
    and pos: "\<forall>j. 0 \<le> j \<and> j < jobs (options w) \<longrightarrow>
            0 < children w j \<and> children w j \<le> int (last_pid w)"
    and inj: "inj_on (children w) {0..<jobs (options w)}"
    unfolding table_ok_def by blast+
  note R = pass_upto_respawns[OF assms(1) fp pos inj order_refl]
  show "\<forall>j. 0 \<le> j \<and> j < jobs (options w) \<and> nat (children w j) \<in> set (unreaped w) \<and>
            has_exited w (n_wait w + nat j) (nat (children w j)) \<longrightarrow>
            int (last_pid w) < children (snd (restart_children w)) j \<and>
            nat (children (snd (restart_children w)) j) \<in> set (unreaped (snd (restart_children w)))"
    unfolding restart_children_eq[OF assms] snd_conv using R by auto
qed

theorem restart_children_polls_every_slot_once_witness:
  "jobs (options (asleep [(CHR ''j'', ''3'')] (\<lambda>_. In_parent) (\<lambda>_. False) (\<lambda>t q. q = 101 \<or> q = 103))) \<le> 0xff \<and>
   table_ok (asleep [(CHR ''j'', ''3'')] (\<lambda>_. In_parent) (\<lambda>_. False) (\<lambda>t q. q = 101 \<or> q = 103)) \<and>
   unreaped (asleep [(CHR ''j'', ''3'')] (\<lambda>_. In_parent) (\<lambda>_. False) (\<lambda>t q. q = 101 \<or> q = 103))
     = [101, 102, 103] \<and>
   fst (restart_children
         (asleep [(CHR ''j'', ''3'')] (\<lambda>_. In_parent) (\<lambda>_. False) (\<lambda>t q. q = 101 \<or> q = 103)))
     = Returns () \<and>
   map (children (snd (restart_children
         (asleep [(CHR ''j'', ''3'')] (\<lambda>_. In_parent) (\<lambda>_. False) (\<lambda>t q. q = 101 \<or> q = 103)))))
     [0, 1, 2] = [104, 102, 105] \<and>
   unreaped (snd (restart_children
         (asleep [(CHR ''j'', ''3'')] (\<lambda>_. In_parent) (\<lambda>_. False) (\<lambda>t q. q = 101 \<or> q = 103))))
     = [102, 104, 105]"
  using restart_children_polls_every_slot_once
          [of "asleep [(CHR ''j'', ''3'')] (\<lambda>_. In_parent) (\<lambda>_. False) (\<lambda>t q. q = 101 \<or> q = 103)"]
  by (simp add: pass_three) (simp_all add: asleep_three table_ok_def inj_on_def)


text \<open>
  Claim C9. In a pass of \<open>restart_children\<close> (in the supervisor, for a job count the table
  can hold) the calls of \<open>waitpid\<close> are, in order, one for each slot \<open>0..jobs-1\<close> on the pid
  that slot records. An entry \<open>children[i]\<close> is as before the pass whenever \<open>i\<close> is not one
  of these slots, or the poll of slot \<open>i\<close> returned \<open>0\<close> (still alive) or a negative value
  (an error): only slots whose poll returned a pid are rewritten.
\<close>

theorem restart_children_rewrites_only_reaped_slots:
  assumes "jobs (options w) \<le> 0xff" and "\<forall>k. fork_plan w k \<noteq> In_child"
  shows
    "map fst (polls (added w (snd (restart_children w)))) =
       map (\<lambda>j. children w (int j)) [0..<nat (jobs (options w))] \<and>
     (\<forall>i. i < 0 \<or> jobs (options w) \<le> i \<or>
           snd (polls (added w (snd (restart_children w))) ! nat i) \<le> 0 \<longrightarrow>
           children (snd (restart_children w)) i = children w i)"
proof -
  from restart_children_blocks[OF assms] obtain rs qs where
    l: "length rs = nat (jobs (options w))"
    and a: "added w (snd (restart_children w)) =
             concat (map (\<lambda>j. slot_events (int j) (children w (int j)) (rs ! j) (qs ! j))
                       [0..<nat (jobs (options w))])"
    and c: "children (snd (restart_children w)) =
             (\<lambda>i. if 0 \<le> i \<and> i < jobs (options w) \<and> 0 < rs ! nat i \<and> 0 < qs ! nat i
                  then qs ! nat i else children w i)"
    by blast
  have p: "polls (added w (snd (restart_children w))) =
             map (\<lambda>j. (children w (int j), rs ! j)) [0..<nat (jobs (options w))]"
    unfolding a by (rule polls_concat_slots)
  have r: "snd (polls (added w (snd (restart_children w))) ! nat i) = rs ! nat i"
    if "0 \<le> i" "i < jobs (options w)" for i
    using that by (simp add: p)
  show ?thesis
  proof (intro conjI allI impI)
    show "map fst (polls (added w (snd (restart_children w)))) =
       map (\<lambda>j. children w (int j)) [0..<nat (jobs (options w))]"
      by (simp add: p comp_def)
  next
    fix i
    assume "i < 0 \<or> jobs (options w) \<le> i \<or>
           snd (polls (added w (snd (restart_children w))) ! nat i) \<le> 0"
    then show "children (snd (restart_children w)) i = children w i"
      using r[of i] by (auto simp: c)
  qed
qed

theorem restart_children_rewrites_only_reaped_slots_witness:
  "jobs (options (asleep [(CHR ''j'', ''3'')] (\<lambda>_. In_parent) (\<lambda>_. False) (\<lambda>t q. q = 101 \<or> q = 103))) \<le> 0xff \<and>
   map fst (polls (added
      (asleep [(CHR ''j'', ''3'')] (\<lambda>_. In_parent) (\<lambda>_. False) (\<lambda>t q. q = 101 \<or> q = 103))
      (snd (restart_children
         (asleep [(CHR ''j'', ''3'')] (\<lambda>_. In_parent) (\<lambda>_. False) (\<lambda>t q. q = 101 \<or> q = 103))))))
     = [101, 102, 103] \<and>
   snd (polls (added
      (asleep [(CHR ''j'', ''3'')] (\<lambda>_. In_parent) (\<lambda>_. False) (\<lambda>t q. q = 101 \<or> q = 103))
      (snd (restart_children
         (asleep [(CHR ''j'', ''3'')] (\<lambda>_. In_parent) (\<lambda>_. False) (\<lambda>t q. q = 101 \<or> q = 103)))))
        ! nat 1) \<le> 0 \<and>
   children (snd (restart_children
         (asleep [(CHR ''j'', ''3'')] (\<lambda>_. In_parent) (\<lambda>_. False) (\<lambda>t q. q = 101 \<or> q = 103)))) 1 = 102 \<and>
   children (snd (restart_children
         (asleep [(CHR ''j'', ''3'')] (\<lambda>_. In_parent) (\<lambda>_. False) (\<lambda>t q. q = 101 \<or> q = 103)))) 7 = 0"
  using restart_children_rewrites_only_reaped_slots
          [of "asleep [(CHR ''j'', ''3'')] (\<lambda>_. In_parent) (\<lambda>_. False) (\<lambda>t q. q = 101 \<or> q = 103)"]
  by (simp add: pass_three added_def) (simp_all add: asleep_three)

text \<open>
  Claim C6 fails on the code. Two workers run, the first has exited and the fork of its
  respawn fails: the pass prints nothing about the failure (after the failed fork comes
  the poll of the next slot), and slot 0 keeps the pid that was just reaped. In the next
  pass \<open>waitpid\<close> on that pid fails, \<open>perror\<close> is called and no fork is attempted, although
  this time the fork would succeed.
\<close>

theorem failed_respawn_is_silent_and_not_retried:
  "added (asleep [] (\<lambda>k. if k = 2 then Fork_fails else In_parent) (\<lambda>_. False) (\<lambda>_ q. q = 101))
     (snd (restart_children
        (asleep [] (\<lambda>k. if k = 2 then Fork_fails else In_parent) (\<lambda>_. False) (\<lambda>_ q. q = 101)))) =
     [Waitpid 101 101, Printf ''Master: reaped dead child %d (pid %d)\<newline>'' [Num 0, Num 101],
      Fork (- 1), Waitpid 102 0] \<and>
   children (snd (restart_children
        (asleep [] (\<lambda>k. if k = 2 then Fork_fails else In_parent) (\<lambda>_. False) (\<lambda>_ q. q = 101)))) 0 = 101 \<and>
   unreaped (snd (restart_children
        (asleep [] (\<lambda>k. if k = 2 then Fork_fails else In_parent) (\<lambda>_. False) (\<lambda>_ q. q = 101)))) = [102] \<and>
   fork_plan (snd (restart_children
        (asleep [] (\<lambda>k. if k = 2 then Fork_fails else In_parent) (\<lambda>_. False) (\<lambda>_ q. q = 101))))
     (n_fork (snd (restart_children
        (asleep [] (\<lambda>k. if k = 2 then Fork_fails else In_parent) (\<lambda>_. False) (\<lambda>_ q. q = 101)))))
     = In_parent \<and>
   added (snd (restart_children
        (asleep [] (\<lambda>k. if k = 2 then Fork_fails else In_parent) (\<lambda>_. False) (\<lambda>_ q. q = 101))))
     (snd (restart_children (snd (restart_children
        (asleep [] (\<lambda>k. if k = 2 then Fork_fails else In_parent) (\<lambda>_. False) (\<lambda>_ q. q = 101)))))) =
     [Waitpid 101 (- 1), Perror ''waitpid()'', Waitpid 102 0]"
  by (simp add: pass_fork_fails pass_after_fork_failed added_def) (simp_all add: asleep_default)

section \<open>Shutting down\<close>

text \<open>
  Claim C1. Whenever \<open>terminate_children\<close> runs, from any state, and no other signal is
  handled inside it: it never returns to the code it interrupted; it makes no call of
  fork and leaves the table of children as it is, so nothing is respawned; its events
  are, in this order, the announcement, calls of sigaction that ask for the default
  disposition, calls of kill with SIGTERM, and then one \<open>wait\<close> per reaped child. When the
  process exits, the status is 0, the last two events are the \<open>wait\<close> that returned \<open>-1\<close>
  and the final message, and the supervisor has no child left that is running or not
  yet reaped. Within the bounds of the two tables the run either exits so or stays
  blocked in \<open>wait\<close>.
\<close>

theorem terminate_children_exits_after_last_child:
  assumes "terminate_children w = (r, w')"
  shows
    "r \<noteq> Returns () \<and>
     n_fork w' = n_fork w \<and> children w' = children w \<and>
     (\<forall>e\<in>set (added w w'). \<not> is_fork e) \<and>
     (\<exists>ss ks ws.
        added w w' =
          Printf ''Termination signal received! Killing children'' [] # ss @ ks @ ws @
          (if r = Exits 0
           then [Wait (- 1), Printf ''\<newline>All children reaped, shutting down.\<newline>'' []]
           else []) \<and>
        (\<forall>e\<in>set ss. is_restore e) \<and> (\<forall>e\<in>set ks. is_kill e) \<and> (\<forall>e\<in>set ws. is_reap e)) \<and>
     (\<forall>n. r = Exits n \<longrightarrow> n = 0 \<and> unreaped w' = []) \<and>
     (sigcount w \<le> 0xff \<and> jobs (options w) \<le> 0xff \<longrightarrow> r \<noteq> Faults)"
proof -
  from terminate_children_shape[OF assms] obtain ss ks ws where
    r: "r = Faults \<or> r = Suspends \<or> r = Exits 0"
    and f: "n_fork w' = n_fork w" "children w' = children w"
    and t: "trace w' = trace w @
              Printf ''Termination signal received! Killing children'' [] # ss @ ks @ ws @
              (if r = Exits 0
               then [Wait (- 1), Printf ''\<newline>All children reaped, shutting down.\<newline>'' []]
               else [])"
    and c: "\<forall>e\<in>set ss. is_restore e" "\<forall>e\<in>set ks. is_kill e" "\<forall>e\<in>set ws. is_reap e"
    and u: "r = Exits 0 \<longrightarrow> unreaped w' = []"
    and b: "sigcount w \<le> 0xff \<and> jobs (options w) \<le> 0xff \<longrightarrow> r \<noteq> Faults" by blast
  have a: "added w w' =
          Printf ''Termination signal received! Killing children'' [] # ss @ ks @ ws @
          (if r = Exits 0
           then [Wait (- 1), Printf ''\<newline>All children reaped, shutting down.\<newline>'' []]
           else [])"
    by (rule added_append[OF t])
  have nf: "\<not> is_fork e" if "is_restore e \<or> is_kill e \<or> is_reap e" for e
    using that by (cases e) auto
  have n: "\<forall>e\<in>set (added w w'). \<not> is_fork e"
    unfolding a using c nf by auto
  have x: "\<exists>ss ks ws.
        added w w' =
          Printf ''Termination signal received! Killing children'' [] # ss @ ks @ ws @
          (if r = Exits 0
           then [Wait (- 1), Printf ''\<newline>All children reaped, shutting down.\<newline>'' []]
           else []) \<and>
        (\<forall>e\<in>set ss. is_restore e) \<and> (\<forall>e\<in>set ks. is_kill e) \<and> (\<forall>e\<in>set ws. is_reap e)"
    using a c by blast
  have y: "r \<noteq> Returns ()" using r by auto
  have z: "\<forall>n. r = Exits n \<longrightarrow> n = 0 \<and> unreaped w' = []" using r u by auto
  show ?thesis using y f n x z b by (intro conjI)
qed

theorem terminate_children_exits_after_last_child_witness:
  "fst (terminate_children (asleep [] (\<lambda>_. In_parent) (\<lambda>_. False) (\<lambda>_ _. True))) = Exits 0 \<and>
   unreaped (asleep [] (\<lambda>_. In_parent) (\<lambda>_. False) (\<lambda>_ _. True)) = [101, 102] \<and>
   unreaped (snd (terminate_children (asleep [] (\<lambda>_. In_parent) (\<lambda>_. False) (\<lambda>_ _. True)))) = [] \<and>
   n_fork (snd (terminate_children (asleep [] (\<lambda>_. In_parent) (\<lambda>_. False) (\<lambda>_ _. True)))) = 2 \<and>
   added (asleep [] (\<lambda>_. In_parent) (\<lambda>_. False) (\<lambda>_ _. True))
         (snd (terminate_children (asleep [] (\<lambda>_. In_parent) (\<lambda>_. False) (\<lambda>_ _. True)))) =
     [Printf ''Termination signal received! Killing children'' [],
      Sigaction SIGCHLD SIG_DFL 0, Sigaction SIGINT SIG_DFL 0, Sigaction SIGTERM SIG_DFL 0,
      Kill 101 SIGTERM, Kill 102 SIGTERM,
      Wait 101, Printf ''.'' [], Wait 102, Printf ''.'' [], Wait (- 1),
      Printf ''\<newline>All children reaped, shutting down.\<newline>'' []]"
  using terminate_children_exits_after_last_child[OF shutdown_default]
  by (simp add: shutdown_default added_def) (simp_all add: asleep_default)

text \<open>
  Claim C7 fails on the code. Two workers run and the kernel rejects the first call of
  sigaction that \<open>terminate_children\<close> makes: \<open>trap_signals(false)\<close> returns false, nobody
  looks at it, and SIGTERM is sent to both workers while SIGCHLD is still bound to
  \<open>restart_children\<close>.
\<close>

theorem terminate_children_kills_after_rejected_restore:
  "fst (terminate_children (asleep [] (\<lambda>_. In_parent) (\<lambda>k. k = 3) (\<lambda>_ _. True))) = Exits 0 \<and>
   added (asleep [] (\<lambda>_. In_parent) (\<lambda>k. k = 3) (\<lambda>_ _. True))
         (snd (terminate_children (asleep [] (\<lambda>_. In_parent) (\<lambda>k. k = 3) (\<lambda>_ _. True)))) =
     [Printf ''Termination signal received! Killing children'' [],
      Sigaction SIGCHLD SIG_DFL (- 1),
      Kill 101 SIGTERM, Kill 102 SIGTERM,
      Wait 101, Printf ''.'' [], Wait 102, Printf ''.'' [], Wait (- 1),
      Printf ''\<newline>All children reaped, shutting down.\<newline>'' []] \<and>
   disposition (snd (terminate_children (asleep [] (\<lambda>_. In_parent) (\<lambda>k. k = 3) (\<lambda>_ _. True))))
     SIGCHLD = Restart_children"
  by (simp add: shutdown_restore_rejected added_def)
     (simp_all add: asleep_default SIGCHLD_def SIGINT_def SIGTERM_def)

end
